theory Spec2Isabelle
  imports Main "HOL-Library.Word" "HOL-Library.Log_Nat"
begin

unbundle bit_operations_syntax

section \<open>Values of the host platform\<close>

text \<open>
  \<open>lib/logger.js\<close> is glue around the Node.js runtime: strings, buffers, \<open>JSON\<close>,
  \<open>crypto\<close>, \<open>fs\<close>, \<open>os\<close> and \<open>process\<close>. The program's own functions
  (\<open>encryptLogData\<close>, \<open>decryptLogData\<close>, \<open>getCpuUsage\<close>, \<open>logger\<close>,
  \<open>readTextLogs\<close> and the module's start-up code) are translated line by line in the
  second half of this theory; this first half gives the runtime operations they call, each
  following its published specification (ECMA-262, WHATWG Encoding, FIPS 197, NIST SP
  800-38A, RFC 5652 padding, IEEE 754).

  A JavaScript string is a sequence of UTF-16 code units, a \<open>Buffer\<close> a sequence of bytes.
\<close>

type_synonym byte = "8 word"
type_synonym jsstring = "16 word list"

definition js :: "string \<Rightarrow> jsstring" where
  "js s = map (\<lambda>c. of_nat (of_char c)) s"

text \<open>
  A thrown value. \<open>Error msg\<close> is \<open>new Error(msg)\<close> as the program itself throws it,
  with the whole message. The other constructors are what the runtime throws, with
  the words of the message that name the failure: \<open>SystemError\<close> carries the \<open>code\<close>
  of a failed system call (\<open>ENOENT\<close>, ...), \<open>CryptoError\<close> the message of \<open>crypto\<close>,
  \<open>BackendError\<close> the rejection of a database client.
\<close>

datatype error =
    Error jsstring
  | TypeError jsstring
  | SyntaxError jsstring
  | SystemError jsstring
  | CryptoError jsstring
  | BackendError jsstring

subsection \<open>UTF-8: \<open>Buffer.from(s, 'utf8')\<close> and \<open>buf.toString('utf8')\<close>\<close>

definition is_high :: "16 word \<Rightarrow> bool" where
  "is_high c \<longleftrightarrow> 0xD800 \<le> unat c \<and> unat c < 0xDC00"

definition is_low :: "16 word \<Rightarrow> bool" where
  "is_low c \<longleftrightarrow> 0xDC00 \<le> unat c \<and> unat c < 0xE000"

definition is_surrogate :: "16 word \<Rightarrow> bool" where
  "is_surrogate c \<longleftrightarrow> 0xD800 \<le> unat c \<and> unat c < 0xE000"

definition pair_cp :: "16 word \<Rightarrow> 16 word \<Rightarrow> nat" where
  "pair_cp hi lo = 0x10000 + (unat hi - 0xD800) * 0x400 + (unat lo - 0xDC00)"

text \<open>The bytes of one code point.\<close>

definition utf8_cp :: "nat \<Rightarrow> byte list" where
  "utf8_cp cp =
     (if cp < 0x80 then [of_nat cp]
      else if cp < 0x800 then [of_nat (0xC0 + cp div 0x40), of_nat (0x80 + cp mod 0x40)]
      else if cp < 0x10000 then
        [of_nat (0xE0 + cp div 0x1000), of_nat (0x80 + cp div 0x40 mod 0x40),
         of_nat (0x80 + cp mod 0x40)]
      else
        [of_nat (0xF0 + cp div 0x40000), of_nat (0x80 + cp div 0x1000 mod 0x40),
         of_nat (0x80 + cp div 0x40 mod 0x40), of_nat (0x80 + cp mod 0x40)])"

text \<open>A surrogate that has no partner is written as U+FFFD.\<close>

definition unit_cp :: "16 word \<Rightarrow> nat" where
  "unit_cp c = (if is_surrogate c then 0xFFFD else unat c)"

fun utf8_encode :: "jsstring \<Rightarrow> byte list" where
  "utf8_encode [] = []"
| "utf8_encode [c] = utf8_cp (unit_cp c)"
| "utf8_encode (c # d # cs) =
     (if is_high c \<and> is_low d then utf8_cp (pair_cp c d) @ utf8_encode cs
      else utf8_cp (unit_cp c) @ utf8_encode (d # cs))"

definition between :: "nat \<Rightarrow> nat \<Rightarrow> byte \<Rightarrow> bool" where
  "between lo hi b \<longleftrightarrow> lo \<le> unat b \<and> unat b \<le> hi"

definition low6 :: "byte \<Rightarrow> nat" where
  "low6 b = unat b - 0x80"

text \<open>The code units of a decoded code point.\<close>

definition cp_units :: "nat \<Rightarrow> jsstring" where
  "cp_units cp =
     (if cp < 0x10000 then [of_nat cp]
      else [of_nat (0xD800 + (cp - 0x10000) div 0x400),
            of_nat (0xDC00 + (cp - 0x10000) mod 0x400)])"

text \<open>Bounds of the first continuation byte, by lead byte (WHATWG Encoding, 4.1).\<close>

definition lower2 :: "nat \<Rightarrow> nat" where
  "lower2 n = (if n = 0xE0 then 0xA0 else if n = 0xF0 then 0x90 else 0x80)"

definition upper2 :: "nat \<Rightarrow> nat" where
  "upper2 n = (if n = 0xED then 0x9F else if n = 0xF4 then 0x8F else 0xBF)"

text \<open>
  The decoder of the WHATWG Encoding standard: an ill-formed or cut-off sequence yields
  one U+FFFD and decoding resumes at the byte that did not fit.
\<close>

fun utf8_decode :: "byte list \<Rightarrow> jsstring" where
  "utf8_decode [] = []"
| "utf8_decode (b # bs) =
     (let n = unat b in
      if n < 0x80 then of_nat n # utf8_decode bs
      else if 0xC2 \<le> n \<and> n \<le> 0xDF then
        (case bs of
           [] \<Rightarrow> [0xFFFD]
         | b1 # r1 \<Rightarrow>
             if between 0x80 0xBF b1
             then cp_units ((n - 0xC0) * 0x40 + low6 b1) @ utf8_decode r1
             else 0xFFFD # utf8_decode (b1 # r1))
      else if 0xE0 \<le> n \<and> n \<le> 0xEF then
        (case bs of
           [] \<Rightarrow> [0xFFFD]
         | b1 # r1 \<Rightarrow>
             if between (lower2 n) (upper2 n) b1 then
               (case r1 of
                  [] \<Rightarrow> [0xFFFD]
                | b2 # r2 \<Rightarrow>
                    if between 0x80 0xBF b2
                    then cp_units ((n - 0xE0) * 0x1000 + low6 b1 * 0x40 + low6 b2)
                           @ utf8_decode r2
                    else 0xFFFD # utf8_decode (b2 # r2))
             else 0xFFFD # utf8_decode (b1 # r1))
      else if 0xF0 \<le> n \<and> n \<le> 0xF4 then
        (case bs of
           [] \<Rightarrow> [0xFFFD]
         | b1 # r1 \<Rightarrow>
             if between (lower2 n) (upper2 n) b1 then
               (case r1 of
                  [] \<Rightarrow> [0xFFFD]
                | b2 # r2 \<Rightarrow>
                    if between 0x80 0xBF b2 then
                      (case r2 of
                         [] \<Rightarrow> [0xFFFD]
                       | b3 # r3 \<Rightarrow>
                           if between 0x80 0xBF b3
                           then cp_units ((n - 0xF0) * 0x40000 + low6 b1 * 0x1000
                                          + low6 b2 * 0x40 + low6 b3) @ utf8_decode r3
                           else 0xFFFD # utf8_decode (b3 # r3))
                    else 0xFFFD # utf8_decode (b2 # r2))
             else 0xFFFD # utf8_decode (b1 # r1))
      else 0xFFFD # utf8_decode bs)"

subsection \<open>The \<open>'hex'\<close> encoding\<close>

definition hex_digit :: "nat \<Rightarrow> 16 word" where
  "hex_digit n = (if n < 10 then of_nat (0x30 + n) else of_nat (0x57 + n))"

definition hex_byte :: "byte \<Rightarrow> jsstring" where
  "hex_byte b = [hex_digit (unat b div 16), hex_digit (unat b mod 16)]"

definition hex_encode :: "byte list \<Rightarrow> jsstring" where
  "hex_encode bs = concat (map hex_byte bs)"

definition hex_val :: "16 word \<Rightarrow> nat option" where
  "hex_val c =
     (let n = unat c in
      if 0x30 \<le> n \<and> n \<le> 0x39 then Some (n - 0x30)
      else if 0x61 \<le> n \<and> n \<le> 0x66 then Some (n - 0x57)
      else if 0x41 \<le> n \<and> n \<le> 0x46 then Some (n - 0x37)
      else None)"

text \<open>Decoding stops at the first pair that is not two hex digits; an odd last digit is dropped.\<close>

fun hex_decode :: "jsstring \<Rightarrow> byte list" where
  "hex_decode (c # d # cs) =
     (case (hex_val c, hex_val d) of
        (Some h, Some l) \<Rightarrow> of_nat (16 * h + l) # hex_decode cs
      | _ \<Rightarrow> [])"
| "hex_decode _ = []"

section \<open>AES-256-CBC as \<open>crypto.createCipheriv('aes-256-cbc', key, iv)\<close> runs it\<close>

subsection \<open>The block cipher (FIPS 197)\<close>

text \<open>
  The state is four columns of four bytes; byte \<open>r + 4c\<close> of a block is row \<open>r\<close> of
  column \<open>c\<close>.
\<close>

type_synonym col = "byte \<times> byte \<times> byte \<times> byte"
type_synonym state = "col \<times> col \<times> col \<times> col"

definition sbox_table :: "byte list" where
  "sbox_table = [
    0x63, 0x7c, 0x77, 0x7b, 0xf2, 0x6b, 0x6f, 0xc5, 0x30, 0x01, 0x67, 0x2b, 0xfe, 0xd7, 0xab, 0x76,
    0xca, 0x82, 0xc9, 0x7d, 0xfa, 0x59, 0x47, 0xf0, 0xad, 0xd4, 0xa2, 0xaf, 0x9c, 0xa4, 0x72, 0xc0,
    0xb7, 0xfd, 0x93, 0x26, 0x36, 0x3f, 0xf7, 0xcc, 0x34, 0xa5, 0xe5, 0xf1, 0x71, 0xd8, 0x31, 0x15,
    0x04, 0xc7, 0x23, 0xc3, 0x18, 0x96, 0x05, 0x9a, 0x07, 0x12, 0x80, 0xe2, 0xeb, 0x27, 0xb2, 0x75,
    0x09, 0x83, 0x2c, 0x1a, 0x1b, 0x6e, 0x5a, 0xa0, 0x52, 0x3b, 0xd6, 0xb3, 0x29, 0xe3, 0x2f, 0x84,
    0x53, 0xd1, 0x00, 0xed, 0x20, 0xfc, 0xb1, 0x5b, 0x6a, 0xcb, 0xbe, 0x39, 0x4a, 0x4c, 0x58, 0xcf,
    0xd0, 0xef, 0xaa, 0xfb, 0x43, 0x4d, 0x33, 0x85, 0x45, 0xf9, 0x02, 0x7f, 0x50, 0x3c, 0x9f, 0xa8,
    0x51, 0xa3, 0x40, 0x8f, 0x92, 0x9d, 0x38, 0xf5, 0xbc, 0xb6, 0xda, 0x21, 0x10, 0xff, 0xf3, 0xd2,
    0xcd, 0x0c, 0x13, 0xec, 0x5f, 0x97, 0x44, 0x17, 0xc4, 0xa7, 0x7e, 0x3d, 0x64, 0x5d, 0x19, 0x73,
    0x60, 0x81, 0x4f, 0xdc, 0x22, 0x2a, 0x90, 0x88, 0x46, 0xee, 0xb8, 0x14, 0xde, 0x5e, 0x0b, 0xdb,
    0xe0, 0x32, 0x3a, 0x0a, 0x49, 0x06, 0x24, 0x5c, 0xc2, 0xd3, 0xac, 0x62, 0x91, 0x95, 0xe4, 0x79,
    0xe7, 0xc8, 0x37, 0x6d, 0x8d, 0xd5, 0x4e, 0xa9, 0x6c, 0x56, 0xf4, 0xea, 0x65, 0x7a, 0xae, 0x08,
    0xba, 0x78, 0x25, 0x2e, 0x1c, 0xa6, 0xb4, 0xc6, 0xe8, 0xdd, 0x74, 0x1f, 0x4b, 0xbd, 0x8b, 0x8a,
    0x70, 0x3e, 0xb5, 0x66, 0x48, 0x03, 0xf6, 0x0e, 0x61, 0x35, 0x57, 0xb9, 0x86, 0xc1, 0x1d, 0x9e,
    0xe1, 0xf8, 0x98, 0x11, 0x69, 0xd9, 0x8e, 0x94, 0x9b, 0x1e, 0x87, 0xe9, 0xce, 0x55, 0x28, 0xdf,
    0x8c, 0xa1, 0x89, 0x0d, 0xbf, 0xe6, 0x42, 0x68, 0x41, 0x99, 0x2d, 0x0f, 0xb0, 0x54, 0xbb, 0x16]"

definition inv_sbox_table :: "byte list" where
  "inv_sbox_table = [
    0x52, 0x09, 0x6a, 0xd5, 0x30, 0x36, 0xa5, 0x38, 0xbf, 0x40, 0xa3, 0x9e, 0x81, 0xf3, 0xd7, 0xfb,
    0x7c, 0xe3, 0x39, 0x82, 0x9b, 0x2f, 0xff, 0x87, 0x34, 0x8e, 0x43, 0x44, 0xc4, 0xde, 0xe9, 0xcb,
    0x54, 0x7b, 0x94, 0x32, 0xa6, 0xc2, 0x23, 0x3d, 0xee, 0x4c, 0x95, 0x0b, 0x42, 0xfa, 0xc3, 0x4e,
    0x08, 0x2e, 0xa1, 0x66, 0x28, 0xd9, 0x24, 0xb2, 0x76, 0x5b, 0xa2, 0x49, 0x6d, 0x8b, 0xd1, 0x25,
    0x72, 0xf8, 0xf6, 0x64, 0x86, 0x68, 0x98, 0x16, 0xd4, 0xa4, 0x5c, 0xcc, 0x5d, 0x65, 0xb6, 0x92,
    0x6c, 0x70, 0x48, 0x50, 0xfd, 0xed, 0xb9, 0xda, 0x5e, 0x15, 0x46, 0x57, 0xa7, 0x8d, 0x9d, 0x84,
    0x90, 0xd8, 0xab, 0x00, 0x8c, 0xbc, 0xd3, 0x0a, 0xf7, 0xe4, 0x58, 0x05, 0xb8, 0xb3, 0x45, 0x06,
    0xd0, 0x2c, 0x1e, 0x8f, 0xca, 0x3f, 0x0f, 0x02, 0xc1, 0xaf, 0xbd, 0x03, 0x01, 0x13, 0x8a, 0x6b,
    0x3a, 0x91, 0x11, 0x41, 0x4f, 0x67, 0xdc, 0xea, 0x97, 0xf2, 0xcf, 0xce, 0xf0, 0xb4, 0xe6, 0x73,
    0x96, 0xac, 0x74, 0x22, 0xe7, 0xad, 0x35, 0x85, 0xe2, 0xf9, 0x37, 0xe8, 0x1c, 0x75, 0xdf, 0x6e,
    0x47, 0xf1, 0x1a, 0x71, 0x1d, 0x29, 0xc5, 0x89, 0x6f, 0xb7, 0x62, 0x0e, 0xaa, 0x18, 0xbe, 0x1b,
    0xfc, 0x56, 0x3e, 0x4b, 0xc6, 0xd2, 0x79, 0x20, 0x9a, 0xdb, 0xc0, 0xfe, 0x78, 0xcd, 0x5a, 0xf4,
    0x1f, 0xdd, 0xa8, 0x33, 0x88, 0x07, 0xc7, 0x31, 0xb1, 0x12, 0x10, 0x59, 0x27, 0x80, 0xec, 0x5f,
    0x60, 0x51, 0x7f, 0xa9, 0x19, 0xb5, 0x4a, 0x0d, 0x2d, 0xe5, 0x7a, 0x9f, 0x93, 0xc9, 0x9c, 0xef,
    0xa0, 0xe0, 0x3b, 0x4d, 0xae, 0x2a, 0xf5, 0xb0, 0xc8, 0xeb, 0xbb, 0x3c, 0x83, 0x53, 0x99, 0x61,
    0x17, 0x2b, 0x04, 0x7e, 0xba, 0x77, 0xd6, 0x26, 0xe1, 0x69, 0x14, 0x63, 0x55, 0x21, 0x0c, 0x7d]"

definition sbox :: "byte \<Rightarrow> byte" where
  "sbox b = sbox_table ! unat b"

definition inv_sbox :: "byte \<Rightarrow> byte" where
  "inv_sbox b = inv_sbox_table ! unat b"

fun map_col :: "(byte \<Rightarrow> byte) \<Rightarrow> col \<Rightarrow> col" where
  "map_col f (a, b, c, d) = (f a, f b, f c, f d)"

fun map_state :: "(col \<Rightarrow> col) \<Rightarrow> state \<Rightarrow> state" where
  "map_state f (p, q, r, s) = (f p, f q, f r, f s)"

definition sub_bytes :: "state \<Rightarrow> state" where
  "sub_bytes = map_state (map_col sbox)"

definition inv_sub_bytes :: "state \<Rightarrow> state" where
  "inv_sub_bytes = map_state (map_col inv_sbox)"

text \<open>Row \<open>r\<close> is rotated left by \<open>r\<close> columns.\<close>

fun shift_rows :: "state \<Rightarrow> state" where
  "shift_rows ((a0, a1, a2, a3), (b0, b1, b2, b3), (c0, c1, c2, c3), (d0, d1, d2, d3)) =
     ((a0, b1, c2, d3), (b0, c1, d2, a3), (c0, d1, a2, b3), (d0, a1, b2, c3))"

fun inv_shift_rows :: "state \<Rightarrow> state" where
  "inv_shift_rows ((a0, a1, a2, a3), (b0, b1, b2, b3), (c0, c1, c2, c3), (d0, d1, d2, d3)) =
     ((a0, d1, c2, b3), (b0, a1, d2, c3), (c0, b1, a2, d3), (d0, c1, b2, a3))"

text \<open>Multiplication by \<open>x\<close> in GF(2^8) modulo \<open>x^8 + x^4 + x^3 + x + 1\<close>.\<close>

definition xtime :: "byte \<Rightarrow> byte" where
  "xtime b = push_bit 1 b XOR (if bit b 7 then 0x1b else 0)"

definition mul2 :: "byte \<Rightarrow> byte" where "mul2 b = xtime b"
definition mul3 :: "byte \<Rightarrow> byte" where "mul3 b = xtime b XOR b"
definition mul9 :: "byte \<Rightarrow> byte" where "mul9 b = xtime (xtime (xtime b)) XOR b"
definition mul11 :: "byte \<Rightarrow> byte" where
  "mul11 b = xtime (xtime (xtime b)) XOR xtime b XOR b"
definition mul13 :: "byte \<Rightarrow> byte" where
  "mul13 b = xtime (xtime (xtime b)) XOR xtime (xtime b) XOR b"
definition mul14 :: "byte \<Rightarrow> byte" where
  "mul14 b = xtime (xtime (xtime b)) XOR xtime (xtime b) XOR xtime b"

fun mix_column :: "col \<Rightarrow> col" where
  "mix_column (a, b, c, d) =
     (mul2 a XOR mul3 b XOR c XOR d,
      a XOR mul2 b XOR mul3 c XOR d,
      a XOR b XOR mul2 c XOR mul3 d,
      mul3 a XOR b XOR c XOR mul2 d)"

fun inv_mix_column :: "col \<Rightarrow> col" where
  "inv_mix_column (a, b, c, d) =
     (mul14 a XOR mul11 b XOR mul13 c XOR mul9 d,
      mul9 a XOR mul14 b XOR mul11 c XOR mul13 d,
      mul13 a XOR mul9 b XOR mul14 c XOR mul11 d,
      mul11 a XOR mul13 b XOR mul9 c XOR mul14 d)"

definition mix_columns :: "state \<Rightarrow> state" where
  "mix_columns = map_state mix_column"

definition inv_mix_columns :: "state \<Rightarrow> state" where
  "inv_mix_columns = map_state inv_mix_column"

fun xor_col :: "col \<Rightarrow> col \<Rightarrow> col" where
  "xor_col (a, b, c, d) (e, f, g, h) = (a XOR e, b XOR f, c XOR g, d XOR h)"

fun add_round_key :: "state \<Rightarrow> state \<Rightarrow> state" where
  "add_round_key (k0, k1, k2, k3) (s0, s1, s2, s3) =
     (xor_col s0 k0, xor_col s1 k1, xor_col s2 k2, xor_col s3 k3)"

subsection \<open>Key expansion for a 256-bit key\<close>

fun rot_word :: "col \<Rightarrow> col" where
  "rot_word (a, b, c, d) = (b, c, d, a)"

definition sub_word :: "col \<Rightarrow> col" where
  "sub_word = map_col sbox"

definition rcon :: "nat \<Rightarrow> col" where
  "rcon i = ([0x01, 0x02, 0x04, 0x08, 0x10, 0x20, 0x40] ! (i - 1), 0, 0, 0)"

definition col_of :: "byte list \<Rightarrow> col" where
  "col_of bs = (bs ! 0, bs ! 1, bs ! 2, bs ! 3)"

fun col_bytes :: "col \<Rightarrow> byte list" where
  "col_bytes (a, b, c, d) = [a, b, c, d]"

text \<open>
  \<open>expand n i w\<close> appends the words \<open>w[i]\<close>, ..., \<open>w[i + n - 1]\<close> to the schedule \<open>w\<close>
  (of length \<open>i\<close>), with \<open>Nk = 8\<close>.
\<close>

fun expand :: "nat \<Rightarrow> nat \<Rightarrow> col list \<Rightarrow> col list" where
  "expand 0 i w = w"
| "expand (Suc n) i w =
     (let t = w ! (i - 1);
          t' = (if i mod 8 = 0 then xor_col (sub_word (rot_word t)) (rcon (i div 8))
                else if i mod 8 = 4 then sub_word t
                else t)
      in expand n (Suc i) (w @ [xor_col (w ! (i - 8)) t']))"

definition key_expansion :: "byte list \<Rightarrow> col list" where
  "key_expansion key =
     expand 52 8 (map (\<lambda>j. col_of (drop (4 * j) key)) [0..<8])"

definition round_key :: "col list \<Rightarrow> nat \<Rightarrow> state" where
  "round_key w r = (w ! (4 * r), w ! (4 * r + 1), w ! (4 * r + 2), w ! (4 * r + 3))"

subsection \<open>Cipher and inverse cipher, 14 rounds\<close>

definition aes_round :: "state \<Rightarrow> state \<Rightarrow> state" where
  "aes_round k s = add_round_key k (mix_columns (shift_rows (sub_bytes s)))"

definition inv_aes_round :: "state \<Rightarrow> state \<Rightarrow> state" where
  "inv_aes_round k s = inv_sub_bytes (inv_shift_rows (inv_mix_columns (add_round_key k s)))"

definition final_round :: "state \<Rightarrow> state \<Rightarrow> state" where
  "final_round k s = add_round_key k (shift_rows (sub_bytes s))"

definition inv_final_round :: "state \<Rightarrow> state \<Rightarrow> state" where
  "inv_final_round k s = inv_sub_bytes (inv_shift_rows (add_round_key k s))"

definition aes_encrypt :: "col list \<Rightarrow> state \<Rightarrow> state" where
  "aes_encrypt w s =
     final_round (round_key w 14)
       (fold (\<lambda>r. aes_round (round_key w r)) [1..<14] (add_round_key (round_key w 0) s))"

text \<open>
  The inverse cipher of FIPS 197, 5.3: its operations in the same order, grouped so that
  each group undoes one round.
\<close>

definition aes_decrypt :: "col list \<Rightarrow> state \<Rightarrow> state" where
  "aes_decrypt w s =
     add_round_key (round_key w 0)
       (fold (\<lambda>r. inv_aes_round (round_key w r)) (rev [1..<14])
          (inv_final_round (round_key w 14) s))"

definition state_of :: "byte list \<Rightarrow> state" where
  "state_of bs = (col_of bs, col_of (drop 4 bs), col_of (drop 8 bs), col_of (drop 12 bs))"

fun state_bytes :: "state \<Rightarrow> byte list" where
  "state_bytes (p, q, r, s) = col_bytes p @ col_bytes q @ col_bytes r @ col_bytes s"

definition encrypt_block :: "col list \<Rightarrow> byte list \<Rightarrow> byte list" where
  "encrypt_block w bs = state_bytes (aes_encrypt w (state_of bs))"

definition decrypt_block :: "col list \<Rightarrow> byte list \<Rightarrow> byte list" where
  "decrypt_block w bs = state_bytes (aes_decrypt w (state_of bs))"

subsection \<open>CBC chaining (SP 800-38A) with PKCS#7 padding\<close>

definition xor_bytes :: "byte list \<Rightarrow> byte list \<Rightarrow> byte list" where
  "xor_bytes a b = map2 (XOR) a b"

fun blocks :: "byte list \<Rightarrow> byte list list" where
  "blocks bs = (if length bs < 16 then [] else take 16 bs # blocks (drop 16 bs))"

declare blocks.simps [simp del]

fun cbc_encrypt :: "col list \<Rightarrow> byte list \<Rightarrow> byte list list \<Rightarrow> byte list" where
  "cbc_encrypt w prev [] = []"
| "cbc_encrypt w prev (p # ps) =
     (let c = encrypt_block w (xor_bytes p prev) in c @ cbc_encrypt w c ps)"

fun cbc_decrypt :: "col list \<Rightarrow> byte list \<Rightarrow> byte list list \<Rightarrow> byte list" where
  "cbc_decrypt w prev [] = []"
| "cbc_decrypt w prev (c # cs) = xor_bytes (decrypt_block w c) prev @ cbc_decrypt w c cs"

text \<open>
  A \<open>Cipher\<close> or \<open>Decipher\<close> object: the key schedule, the chaining block and the input
  bytes not yet processed.
\<close>

record cipher =
  sched :: "col list"
  chain :: "byte list"
  pending :: "byte list"

text \<open>
  \<open>createCipheriv\<close> and \<open>createDecipheriv\<close> check the length of the IV, then the length
  of the key.
\<close>

definition createCipheriv :: "byte list \<Rightarrow> byte list \<Rightarrow> error + cipher" where
  "createCipheriv key iv =
     (if length iv \<noteq> 16 then Inl (CryptoError (js ''Invalid initialization vector''))
      else if length key \<noteq> 32 then Inl (CryptoError (js ''Invalid key length''))
      else Inr \<lparr>sched = key_expansion key, chain = iv, pending = []\<rparr>)"

text \<open>\<open>cipher.update\<close> encrypts the complete blocks and keeps the rest.\<close>

definition cipher_update :: "cipher \<Rightarrow> byte list \<Rightarrow> byte list \<times> cipher" where
  "cipher_update c data =
     (let buf = pending c @ data;
          n = length buf div 16;
          out = cbc_encrypt (sched c) (chain c) (blocks (take (16 * n) buf))
      in (out, c\<lparr>chain := (if n = 0 then chain c else drop (16 * (n - 1)) out),
                 pending := drop (16 * n) buf\<rparr>))"

text \<open>\<open>cipher.final\<close> pads what is left to one block and encrypts it.\<close>

definition cipher_final :: "cipher \<Rightarrow> byte list" where
  "cipher_final c =
     (let k = 16 - length (pending c)
      in cbc_encrypt (sched c) (chain c) [pending c @ replicate k (of_nat k)])"

text \<open>\<open>decipher.update\<close> holds the last complete block back: it carries the padding.\<close>

definition decipher_update :: "cipher \<Rightarrow> byte list \<Rightarrow> byte list \<times> cipher" where
  "decipher_update c data =
     (let buf = pending c @ data;
          n = (length buf - 1) div 16;
          out = cbc_decrypt (sched c) (chain c) (blocks (take (16 * n) buf))
      in (out, c\<lparr>chain := (if n = 0 then chain c else take 16 (drop (16 * (n - 1)) buf)),
                 pending := drop (16 * n) buf\<rparr>))"

definition decipher_final :: "cipher \<Rightarrow> error + byte list" where
  "decipher_final c =
     (if length (pending c) \<noteq> 16 then Inl (CryptoError (js ''wrong final block length''))
      else
        let p = cbc_decrypt (sched c) (chain c) [pending c];
            n = unat (last p)
        in if n = 0 \<or> 16 < n \<or> (\<exists>b \<in> set (drop (16 - n) p). b \<noteq> of_nat n)
           then Inl (CryptoError (js ''bad decrypt''))
           else Inr (take (16 - n) p))"

section \<open>Numbers\<close>

text \<open>
  A JavaScript number is an IEEE 754 binary64 value. \<open>Num r\<close> is the finite value
  \<open>r\<close>, \<open>Infinity True\<close> and \<open>Infinity False\<close> are the two infinities. Results
  of arithmetic are rounded to 53 significant bits, ties to even (\<open>fl\<close>). In the
  arithmetic of this program the exponent range and the sign of zero play no part: no
  quantity is negative, and none comes near \<open>2^1024\<close> or \<open>2^-1022\<close>. A number
  read from text can be anything, and \<open>to_double\<close> below rounds with the full range.
\<close>

datatype number = Num rat | NaN | Infinity bool

text \<open>\<open>binade x\<close> is the \<open>e\<close> with \<open>2^e \<le> |x| < 2^(e+1)\<close>, for \<open>x \<noteq> 0\<close>.\<close>

definition binade :: "rat \<Rightarrow> int" where
  "binade x = (if 1 \<le> \<bar>x\<bar> then int (floorlog 2 (nat \<lfloor>\<bar>x\<bar>\<rfloor>)) - 1
               else - int (floorlog 2 (nat (\<lceil>1 / \<bar>x\<bar>\<rceil> - 1))))"

definition round_even :: "rat \<Rightarrow> int" where
  "round_even m =
     (let f = \<lfloor>m\<rfloor>; d = m - of_int f
      in if d < 1 / 2 then f else if 1 / 2 < d then f + 1 else if even f then f else f + 1)"

definition scale :: "int \<Rightarrow> rat \<Rightarrow> rat" where
  "scale e x = (if 0 \<le> e then x * 2 ^ nat e else x / 2 ^ nat (- e))"

definition fl :: "rat \<Rightarrow> rat" where
  "fl x = (if x = 0 then 0
           else let e = binade x - 52 in scale e (of_int (round_even (scale (- e) x))))"

fun js_add :: "number \<Rightarrow> number \<Rightarrow> number" where
  "js_add (Num a) (Num b) = Num (fl (a + b))"
| "js_add (Num a) (Infinity s) = Infinity s"
| "js_add (Infinity s) (Num b) = Infinity s"
| "js_add (Infinity s) (Infinity t) = (if s = t then Infinity s else NaN)"
| "js_add _ _ = NaN"

fun js_mul :: "number \<Rightarrow> number \<Rightarrow> number" where
  "js_mul (Num a) (Num b) = Num (fl (a * b))"
| "js_mul (Num a) (Infinity s) = (if a = 0 then NaN else Infinity (s = (0 < a)))"
| "js_mul (Infinity s) (Num b) = (if b = 0 then NaN else Infinity (s = (0 < b)))"
| "js_mul (Infinity s) (Infinity t) = Infinity (s = t)"
| "js_mul _ _ = NaN"

fun js_div :: "number \<Rightarrow> number \<Rightarrow> number" where
  "js_div (Num a) (Num b) =
     (if b = 0 then (if a = 0 then NaN else Infinity (0 < a)) else Num (fl (a / b)))"
| "js_div (Num a) (Infinity s) = Num 0"
| "js_div (Infinity s) (Num b) = Infinity (s = (0 \<le> b))"
| "js_div _ _ = NaN"

text \<open>
  The double nearest to an exact value, as a numeric literal is read: below \<open>2^-1022\<close>
  the doubles are the multiples of \<open>2^-1074\<close>, and a result of \<open>2^1024\<close> or more is
  an infinity.
\<close>

definition to_double :: "rat \<Rightarrow> number" where
  "to_double v =
     (if \<bar>v\<bar> < 1 / 2 ^ 1022 then Num (of_int (round_even (v * 2 ^ 1074)) / 2 ^ 1074)
      else if 2 ^ 1024 \<le> \<bar>fl v\<bar> then Infinity (0 < v)
      else Num (fl v))"

subsection \<open>\<open>Number::toString\<close> (ECMA-262, 6.1.6.1.20)\<close>

fun digits :: "nat \<Rightarrow> jsstring" where
  "digits n = (if n < 10 then [of_nat (0x30 + n)]
               else digits (n div 10) @ [of_nat (0x30 + n mod 10)])"

declare digits.simps [simp del]

definition p10 :: "int \<Rightarrow> rat" where
  "p10 e = (if 0 \<le> e then 10 ^ nat e else 1 / 10 ^ nat (- e))"

text \<open>\<open>decade x\<close> is the \<open>n\<close> with \<open>10^(n-1) \<le> x < 10^n\<close>, for \<open>x > 0\<close>.\<close>

definition decade :: "rat \<Rightarrow> int" where
  "decade x = (if 1 \<le> x then int (floorlog 10 (nat \<lfloor>x\<rfloor>))
               else 1 - int (floorlog 10 (nat (\<lceil>1 / x\<rceil> - 1))))"

text \<open>
  The pairs \<open>(s, n)\<close> with \<open>k\<close> digits in \<open>s\<close> for which \<open>s * 10^(n-k)\<close> is read back as
  \<open>r\<close>. Such a value lies next to \<open>r\<close>, so \<open>n\<close> is the decade of \<open>r\<close> or one more, and
  \<open>s\<close> is \<open>r / 10^(n-k)\<close> rounded down or up.
\<close>

definition digit_candidates :: "rat \<Rightarrow> nat \<Rightarrow> (nat \<times> int) list" where
  "digit_candidates r k =
     concat (map (\<lambda>n.
        concat (map (\<lambda>s.
           if 10 ^ (k - 1) \<le> s \<and> s < 10 ^ k
              \<and> to_double (of_nat s * p10 (n - int k)) = Num r
           then [(s, n)] else [])
         [nat \<lfloor>r / p10 (n - int k)\<rfloor>, nat \<lfloor>r / p10 (n - int k)\<rfloor> + 1]))
      [decade r, decade r + 1])"

text \<open>Of two candidates the nearer to \<open>r\<close>; at equal distance the one with even \<open>s\<close>.\<close>

definition nearer :: "rat \<Rightarrow> nat \<Rightarrow> nat \<times> int \<Rightarrow> nat \<times> int \<Rightarrow> nat \<times> int" where
  "nearer r k a b =
     (let da = \<bar>of_nat (fst a) * p10 (snd a - int k) - r\<bar>;
          db = \<bar>of_nat (fst b) * p10 (snd b - int k) - r\<bar>
      in if da < db then a else if db < da then b else if even (fst a) then a else b)"

text \<open>
  The least \<open>k\<close> that has a candidate, from \<open>k\<close> upwards in at most the given number of
  steps, with the best \<open>(s, n)\<close> for it. A double needs 17 digits at most.
\<close>

fun shortest :: "rat \<Rightarrow> nat \<Rightarrow> nat \<Rightarrow> (nat \<times> nat \<times> int) option" where
  "shortest r 0 k = None"
| "shortest r (Suc f) k =
     (case digit_candidates r k of
        [] \<Rightarrow> shortest r f (Suc k)
      | c # cs \<Rightarrow> Some (k, foldl (nearer r k) c cs))"

text \<open>Steps 5 to 10: plain digits, a decimal point, leading zeros, or an exponent.\<close>

definition format_digits :: "nat \<Rightarrow> jsstring \<Rightarrow> int \<Rightarrow> jsstring" where
  "format_digits k ds n =
     (if int k \<le> n \<and> n \<le> 21 then ds @ replicate (nat (n - int k)) 0x30
      else if 0 < n \<and> n \<le> 21 then take (nat n) ds @ [0x2E] @ drop (nat n) ds
      else if - 6 < n \<and> n \<le> 0 then [0x30, 0x2E] @ replicate (nat (- n)) 0x30 @ ds
      else
        let e = n - 1;
            es = (if e < 0 then 0x2D else 0x2B) # digits (nat \<bar>e\<bar>)
        in if k = 1 then ds @ [0x65] @ es
           else take 1 ds @ [0x2E] @ drop 1 ds @ [0x65] @ es)"

definition positive_to_string :: "rat \<Rightarrow> jsstring" where
  "positive_to_string r =
     (case shortest r 21 1 of
        None \<Rightarrow> []
      | Some (k, s, n) \<Rightarrow> format_digits k (digits s) n)"

definition number_to_string :: "number \<Rightarrow> jsstring" where
  "number_to_string x =
     (case x of
        NaN \<Rightarrow> js ''NaN''
      | Infinity s \<Rightarrow> (if s then js ''Infinity'' else js ''-Infinity'')
      | Num r \<Rightarrow>
          if r = 0 then [0x30]
          else if r < 0 then 0x2D # positive_to_string (- r)
          else positive_to_string r)"

subsection \<open>\<open>Number.prototype.toFixed\<close> (ECMA-262, 21.1.3.3)\<close>

text \<open>
  \<open>fixed_scaled f r\<close> is the integer \<open>n\<close> for which \<open>n / 10^f\<close> is nearest to \<open>|r|\<close>,
  the larger one of two. \<open>toFixed\<close> writes it with \<open>f\<close> digits after the point. From
  \<open>10^21\<close> on JavaScript switches to exponent notation; neither use of \<open>toFixed\<close> in
  this program gets that far (\<open>percent_small\<close>, \<open>elapsed_small\<close> below), and the model
  keeps the plain notation there.
\<close>

definition fixed_scaled :: "nat \<Rightarrow> rat \<Rightarrow> nat" where
  "fixed_scaled f r = nat \<lfloor>\<bar>r\<bar> * 10 ^ f + 1 / 2\<rfloor>"

definition fixed_digits :: "nat \<Rightarrow> nat \<Rightarrow> jsstring" where
  "fixed_digits f n =
     (let m = digits n;
          m' = replicate (Suc f - length m) 0x30 @ m
      in if f = 0 then m
         else take (length m' - f) m' @ [0x2E] @ drop (length m' - f) m')"

definition toFixed :: "nat \<Rightarrow> number \<Rightarrow> jsstring" where
  "toFixed f x =
     (case x of
        NaN \<Rightarrow> js ''NaN''
      | Infinity s \<Rightarrow> (if s then js ''Infinity'' else js ''-Infinity'')
      | Num r \<Rightarrow> (if r < 0 then [0x2D] else []) @ fixed_digits f (fixed_scaled f r))"

section \<open>\<open>JSON.stringify\<close> and \<open>JSON.parse\<close>\<close>

text \<open>
  The values that \<open>JSON\<close> reads and writes: objects keep their properties in order, a
  number is a double.
\<close>

datatype json =
    JNull
  | JBool bool
  | JNum number
  | JStr jsstring
  | JArr "json list"
  | JObj "(jsstring \<times> json) list"

subsection \<open>Serialisation (ECMA-262, 25.5.2)\<close>

definition hex4 :: "16 word \<Rightarrow> jsstring" where
  "hex4 c = (let n = unat c in
     [hex_digit (n div 0x1000), hex_digit (n div 0x100 mod 16),
      hex_digit (n div 16 mod 16), hex_digit (n mod 16)])"

text \<open>One code unit that is not part of a surrogate pair, as \<open>QuoteJSONString\<close> writes it.\<close>

definition quote_unit :: "16 word \<Rightarrow> jsstring" where
  "quote_unit c =
     (if c = 0x08 then [0x5C, 0x62]
      else if c = 0x09 then [0x5C, 0x74]
      else if c = 0x0A then [0x5C, 0x6E]
      else if c = 0x0C then [0x5C, 0x66]
      else if c = 0x0D then [0x5C, 0x72]
      else if c = 0x22 then [0x5C, 0x22]
      else if c = 0x5C then [0x5C, 0x5C]
      else if unat c < 0x20 \<or> is_surrogate c then [0x5C, 0x75] @ hex4 c
      else [c])"

fun quote_body :: "jsstring \<Rightarrow> jsstring" where
  "quote_body [] = []"
| "quote_body [c] = quote_unit c"
| "quote_body (c # d # cs) =
     (if is_high c \<and> is_low d then c # d # quote_body cs
      else quote_unit c @ quote_body (d # cs))"

definition quote :: "jsstring \<Rightarrow> jsstring" where
  "quote s = [0x22] @ quote_body s @ [0x22]"

text \<open>A number that is not finite is written as \<open>null\<close>.\<close>

definition number_text :: "number \<Rightarrow> jsstring" where
  "number_text x = (case x of Num r \<Rightarrow> number_to_string x | _ \<Rightarrow> js ''null'')"

fun join :: "jsstring \<Rightarrow> jsstring list \<Rightarrow> jsstring" where
  "join sep [] = []"
| "join sep [x] = x"
| "join sep (x # y # ys) = x @ sep @ join sep (y # ys)"

text \<open>
  \<open>serialize gap indent v\<close> is \<open>SerializeJSONProperty\<close> with the given \<open>gap\<close> at the
  current \<open>indent\<close>.
\<close>

fun serialize :: "jsstring \<Rightarrow> jsstring \<Rightarrow> json \<Rightarrow> jsstring" where
  "serialize gap ind JNull = js ''null''"
| "serialize gap ind (JBool b) = (if b then js ''true'' else js ''false'')"
| "serialize gap ind (JNum n) = number_text n"
| "serialize gap ind (JStr s) = quote s"
| "serialize gap ind (JArr xs) =
     (if xs = [] then js ''[]''
      else if gap = [] then
        js ''['' @ join (js '','') (map (serialize gap (ind @ gap)) xs) @ js '']''
      else
        js ''['' @ [0x0A] @ ind @ gap
          @ join (js '','' @ [0x0A] @ ind @ gap) (map (serialize gap (ind @ gap)) xs)
          @ [0x0A] @ ind @ js '']'')"
| "serialize gap ind (JObj kvs) =
     (if kvs = [] then js ''{}''
      else if gap = [] then
        js ''{'' @ join (js '','')
            (map (\<lambda>(k, v). quote k @ js '':'' @ serialize gap (ind @ gap) v) kvs) @ js ''}''
      else
        js ''{'' @ [0x0A] @ ind @ gap
          @ join (js '','' @ [0x0A] @ ind @ gap)
              (map (\<lambda>(k, v). quote k @ js '': '' @ serialize gap (ind @ gap) v) kvs)
          @ [0x0A] @ ind @ js ''}'')"

text \<open>\<open>JSON.stringify(v)\<close> and \<open>JSON.stringify(v, null, 2)\<close>.\<close>

definition JSON_stringify :: "json \<Rightarrow> jsstring" where
  "JSON_stringify v = serialize [] [] v"

definition JSON_stringify2 :: "json \<Rightarrow> jsstring" where
  "JSON_stringify2 v = serialize (js ''  '') [] v"

subsection \<open>Parsing\<close>

definition is_ws :: "16 word \<Rightarrow> bool" where
  "is_ws c \<longleftrightarrow> c = 0x20 \<or> c = 0x09 \<or> c = 0x0A \<or> c = 0x0D"

definition skip_ws :: "jsstring \<Rightarrow> jsstring" where
  "skip_ws = dropWhile is_ws"

definition is_digit :: "16 word \<Rightarrow> bool" where
  "is_digit c \<longleftrightarrow> 0x30 \<le> unat c \<and> unat c \<le> 0x39"

definition dec_value :: "jsstring \<Rightarrow> nat" where
  "dec_value = foldl (\<lambda>a c. 10 * a + (unat c - 0x30)) 0"

text \<open>
  A numeric literal: an optional minus sign; \<open>0\<close> or digits that do not start with
  \<open>0\<close>; optionally a point and digits; optionally \<open>e\<close> or \<open>E\<close>, a sign and digits. Its
  value is the double nearest to the decimal number written.
\<close>

definition parse_number :: "jsstring \<Rightarrow> (number \<times> jsstring) option" where
  "parse_number cs =
     (let neg = (cs \<noteq> [] \<and> hd cs = 0x2D);
          r0 = (if neg then tl cs else cs);
          ip = takeWhile is_digit r0;
          r1 = dropWhile is_digit r0;
          has_frac = (r1 \<noteq> [] \<and> hd r1 = 0x2E);
          fp = (if has_frac then takeWhile is_digit (tl r1) else []);
          r2 = (if has_frac then dropWhile is_digit (tl r1) else r1);
          has_exp = (r2 \<noteq> [] \<and> (hd r2 = 0x65 \<or> hd r2 = 0x45));
          r3 = (if has_exp then tl r2 else r2);
          eneg = (has_exp \<and> r3 \<noteq> [] \<and> hd r3 = 0x2D);
          r4 = (if has_exp \<and> r3 \<noteq> [] \<and> (hd r3 = 0x2D \<or> hd r3 = 0x2B) then tl r3 else r3);
          ep = (if has_exp then takeWhile is_digit r4 else []);
          rest = (if has_exp then dropWhile is_digit r4 else r2)
      in if ip = [] \<or> (hd ip = 0x30 \<and> 1 < length ip) then None
         else if has_frac \<and> fp = [] then None
         else if has_exp \<and> ep = [] then None
         else
           let e = (if eneg then - int (dec_value ep) else int (dec_value ep)) - int (length fp);
               v = of_nat (dec_value (ip @ fp)) * p10 e
           in Some (to_double (if neg then - v else v), rest))"

definition unescape :: "16 word \<Rightarrow> 16 word option" where
  "unescape e =
     (if e = 0x22 then Some 0x22
      else if e = 0x5C then Some 0x5C
      else if e = 0x2F then Some 0x2F
      else if e = 0x62 then Some 0x08
      else if e = 0x66 then Some 0x0C
      else if e = 0x6E then Some 0x0A
      else if e = 0x72 then Some 0x0D
      else if e = 0x74 then Some 0x09
      else None)"

definition unhex4 :: "jsstring \<Rightarrow> 16 word option" where
  "unhex4 hs =
     (case map hex_val hs of
        [Some a, Some b, Some c, Some d] \<Rightarrow> Some (of_nat (a * 0x1000 + b * 0x100 + c * 16 + d))
      | _ \<Rightarrow> None)"

definition cons_fst :: "'a \<Rightarrow> ('a list \<times> 'b) option \<Rightarrow> ('a list \<times> 'b) option" where
  "cons_fst c r = map_option (\<lambda>(s, t). (c # s, t)) r"

text \<open>The characters of a string after its opening quote, up to the closing quote.\<close>

fun parse_chars :: "jsstring \<Rightarrow> (jsstring \<times> jsstring) option" where
  "parse_chars [] = None"
| "parse_chars (c # cs) =
     (if c = 0x22 then Some ([], cs)
      else if c = 0x5C then
        (case cs of
           [] \<Rightarrow> None
         | e # r \<Rightarrow>
             if e = 0x75 then
               (if length r < 4 then None
                else case unhex4 (take 4 r) of
                       None \<Rightarrow> None
                     | Some u \<Rightarrow> cons_fst u (parse_chars (drop 4 r)))
             else (case unescape e of
                     None \<Rightarrow> None
                   | Some u \<Rightarrow> cons_fst u (parse_chars r)))
      else if unat c < 0x20 then None
      else cons_fst c (parse_chars cs))"

text \<open>
  A property of an object under construction (\<open>CreateDataProperty\<close>): an existing key
  keeps its place and takes the new value; a new array-index key is placed in ascending
  order before the other keys; any other new key goes to the end.
\<close>

definition index_of :: "jsstring \<Rightarrow> nat option" where
  "index_of k =
     (if k \<noteq> [] \<and> list_all is_digit k \<and> (length k = 1 \<or> hd k \<noteq> 0x30)
         \<and> dec_value k < 4294967295
      then Some (dec_value k) else None)"

fun insert_index :: "nat \<Rightarrow> jsstring \<times> json \<Rightarrow> (jsstring \<times> json) list \<Rightarrow> (jsstring \<times> json) list"
  where
  "insert_index i p [] = [p]"
| "insert_index i p (q # qs) =
     (case index_of (fst q) of
        None \<Rightarrow> p # q # qs
      | Some j \<Rightarrow> if j < i then q # insert_index i p qs else p # q # qs)"

definition define_property ::
  "(jsstring \<times> json) list \<Rightarrow> jsstring \<Rightarrow> json \<Rightarrow> (jsstring \<times> json) list" where
  "define_property kvs k v =
     (if k \<in> fst ` set kvs then map (\<lambda>(k', v'). if k' = k then (k', v) else (k', v')) kvs
      else case index_of k of
             None \<Rightarrow> kvs @ [(k, v)]
           | Some i \<Rightarrow> insert_index i (k, v) kvs)"

text \<open>
  The recursive-descent parser. The first argument bounds the number of nested calls;
  \<open>JSON_parse\<close> starts it with more than the text can use.
\<close>

fun parse_value :: "nat \<Rightarrow> jsstring \<Rightarrow> (json \<times> jsstring) option"
  and parse_elements :: "nat \<Rightarrow> json list \<Rightarrow> jsstring \<Rightarrow> (json \<times> jsstring) option"
  and parse_members ::
    "nat \<Rightarrow> (jsstring \<times> json) list \<Rightarrow> jsstring \<Rightarrow> (json \<times> jsstring) option"
  where
  "parse_value 0 cs = None"
| "parse_value (Suc n) cs =
     (case cs of
        [] \<Rightarrow> None
      | c # r \<Rightarrow>
          if c = 0x7B then
            (case skip_ws r of
               [] \<Rightarrow> None
             | c' # r' \<Rightarrow> if c' = 0x7D then Some (JObj [], r') else parse_members n [] (c' # r'))
          else if c = 0x5B then
            (case skip_ws r of
               [] \<Rightarrow> None
             | c' # r' \<Rightarrow> if c' = 0x5D then Some (JArr [], r') else parse_elements n [] (c' # r'))
          else if c = 0x22 then map_option (\<lambda>(s, t). (JStr s, t)) (parse_chars r)
          else if take 4 cs = js ''true'' then Some (JBool True, drop 4 cs)
          else if take 5 cs = js ''false'' then Some (JBool False, drop 5 cs)
          else if take 4 cs = js ''null'' then Some (JNull, drop 4 cs)
          else map_option (\<lambda>(i, t). (JNum i, t)) (parse_number cs))"
| "parse_elements 0 acc cs = None"
| "parse_elements (Suc n) acc cs =
     (case parse_value n cs of
        None \<Rightarrow> None
      | Some (v, r) \<Rightarrow>
          (case skip_ws r of
             [] \<Rightarrow> None
           | c # r' \<Rightarrow>
               if c = 0x2C then parse_elements n (acc @ [v]) (skip_ws r')
               else if c = 0x5D then Some (JArr (acc @ [v]), r')
               else None))"
| "parse_members 0 acc cs = None"
| "parse_members (Suc n) acc cs =
     (case cs of
        [] \<Rightarrow> None
      | q # r \<Rightarrow>
          if q \<noteq> 0x22 then None
          else
            (case parse_chars r of
               None \<Rightarrow> None
             | Some (k, r1) \<Rightarrow>
                 (case skip_ws r1 of
                    [] \<Rightarrow> None
                  | c # r2 \<Rightarrow>
                      if c \<noteq> 0x3A then None
                      else
                        (case parse_value n (skip_ws r2) of
                           None \<Rightarrow> None
                         | Some (v, r3) \<Rightarrow>
                             (case skip_ws r3 of
                                [] \<Rightarrow> None
                              | d # r4 \<Rightarrow>
                                  if d = 0x2C
                                  then parse_members n (define_property acc k v) (skip_ws r4)
                                  else if d = 0x7D
                                  then Some (JObj (define_property acc k v), r4)
                                  else None)))))"

definition JSON_parse :: "jsstring \<Rightarrow> error + json" where
  "JSON_parse s =
     (case parse_value (Suc (length s)) (skip_ws s) of
        None \<Rightarrow> Inl (SyntaxError (js ''Unexpected token in JSON''))
      | Some (v, r) \<Rightarrow>
          if skip_ws r = [] then Inr v else Inl (SyntaxError (js ''Unexpected token in JSON'')))"

section \<open>The program: \<open>lib/logger.js\<close>\<close>

subsection \<open>Configuration and start-up (lines 8 to 81)\<close>

text \<open>
  \<open>logger.conf.json\<close> as \<open>require\<close> returns it. An absent property is \<open>None\<close>;
  \<open>enable_log_security\<close> is the truth value of the property.
\<close>

record text_conf =
  file_path :: "jsstring option"
  enable_log_security :: bool
  log_security_encryption_key :: "jsstring option"

record db_conf =
  connectionString :: "jsstring option"
  collectionName :: "jsstring option"

record config =
  database_type :: "jsstring option"
  cfg_text :: "text_conf option"
  cfg_sql :: "db_conf option"
  cfg_nosql :: "db_conf option"

text \<open>\<open>!s\<close> for a string-valued property: absent or empty.\<close>

definition falsy :: "jsstring option \<Rightarrow> bool" where
  "falsy s \<longleftrightarrow> s = None \<or> s = Some []"

text \<open>The module-level variables after the module has loaded.\<close>

record logger_module =
  conf :: config
  dbType :: jsstring
  logFilePath :: "jsstring option"
  enableTextEncryption :: bool
  encryptionKey :: "jsstring option"

text \<open>
  Loading the module, lines 8 to 81, as far as it is synchronous. The first argument is
  \<open>configFilePath\<close>; the second is what \<open>require(configFilePath)\<close> does: \<open>Inl m\<close> when it
  throws an error with message \<open>m\<close>, \<open>Inr cfg\<close> when it returns the configuration. The
  value of \<open>database_type\<close> is a string here, so that the template literal of line 67
  is a concatenation.
\<close>

definition load_module :: "jsstring \<Rightarrow> jsstring + config \<Rightarrow> error + logger_module" where
  "load_module configFilePath required =
     (case required of
        Inl m \<Rightarrow>
          Inl (Error (js ''Failed to load configuration file at '' @ configFilePath
                        @ js '': '' @ m))
      | Inr cfg \<Rightarrow>
          if falsy (database_type cfg)
          then Inl (Error (js ''Database type is not specified in the configuration file''))
          else
            let dbt = the (database_type cfg) in
            if dbt = js ''text'' \<and> (case cfg_text cfg of None \<Rightarrow> True | Some t \<Rightarrow> falsy (file_path t))
            then Inl (Error (js ''Text file path is not specified in the configuration file''))
            else if dbt = js ''sql''
              \<and> (case cfg_sql cfg of None \<Rightarrow> True | Some d \<Rightarrow> falsy (connectionString d))
            then Inl (Error (js ''SQL connection string is not specified in the configuration file''))
            else if dbt = js ''nosql''
              \<and> (case cfg_nosql cfg of None \<Rightarrow> True | Some d \<Rightarrow> falsy (connectionString d))
            then Inl (Error (js ''NoSQL connection string is not specified in the configuration file''))
            else if dbt \<noteq> js ''text'' \<and> dbt \<noteq> js ''sql'' \<and> dbt \<noteq> js ''nosql''
            then Inl (Error (js ''Unsupported database type: '' @ dbt))
            else
              let enable = (dbt = js ''text''
                    \<and> (case cfg_text cfg of None \<Rightarrow> False | Some t \<Rightarrow> enable_log_security t));
                  key = (case cfg_text cfg of
                           None \<Rightarrow> None
                         | Some t \<Rightarrow> log_security_encryption_key t)
              in if enable \<and> falsy key
                 then Inl (Error (js ''Encryption key is not set in the configuration file''))
                 else Inr \<lparr>conf = cfg, dbType = dbt,
                          logFilePath = (if dbt = js ''text''
                                         then (case cfg_text cfg of None \<Rightarrow> None | Some t \<Rightarrow> file_path t)
                                         else None),
                          enableTextEncryption = enable,
                          encryptionKey = (if enable then key else None)\<rparr>)"

subsection \<open>\<open>encryptLogData\<close> and \<open>decryptLogData\<close> (lines 88 to 110)\<close>

text \<open>
  \<open>encryptionKey.slice(0, 16)\<close> is the first 16 code units of the key. The two hex strings
  of \<open>update\<close> and \<open>final\<close> are concatenated.
\<close>

definition encryptLogData :: "logger_module \<Rightarrow> json \<Rightarrow> error + json" where
  "encryptLogData ctx log_obj =
     (if \<not> enableTextEncryption ctx then Inr log_obj
      else
        (case encryptionKey ctx of
           None \<Rightarrow> Inl (TypeError (js ''Cannot read properties of undefined''))
         | Some key \<Rightarrow>
             (let iv = utf8_encode (take 16 key) in
              (case createCipheriv (utf8_encode key) iv of
                 Inl e \<Rightarrow> Inl e
               | Inr cipher \<Rightarrow>
                   (let (out1, cipher') =
                          cipher_update cipher (utf8_encode (JSON_stringify log_obj));
                        encrypted = hex_encode out1;
                        encrypted' = encrypted @ hex_encode (cipher_final cipher')
                    in Inr (JStr encrypted'))))))"

text \<open>
  \<open>decipher.update(data, 'hex', 'utf8')\<close> wants a string, and for the encoding
  \<open>hex\<close> one of even length: it throws \<open>ERR_INVALID_ARG_TYPE\<close> for another value and
  \<open>ERR_INVALID_ARG_VALUE\<close> for a string of odd length, both a \<open>TypeError\<close>. The two
  outputs pass through one streaming UTF-8 decoder, which decodes their concatenation.
\<close>

definition invalid_data_type :: error where
  "invalid_data_type =
     TypeError (js ''The '' @ [0x22] @ js ''data'' @ [0x22]
                  @ js '' argument must be of type string or an instance of Buffer, TypedArray, or DataView'')"

definition invalid_hex_length :: "nat \<Rightarrow> error" where
  "invalid_hex_length n =
     TypeError (js ''The argument '' @ [0x27] @ js ''encoding'' @ [0x27]
                  @ js '' is invalid for data of length '' @ digits n
                  @ js ''. Received '' @ [0x27] @ js ''hex'' @ [0x27])"

definition decryptLogData :: "logger_module \<Rightarrow> json \<Rightarrow> error + json" where
  "decryptLogData ctx data =
     (case encryptionKey ctx of
        None \<Rightarrow> Inl (TypeError (js ''Cannot read properties of undefined''))
      | Some key \<Rightarrow>
          (let iv = utf8_encode (take 16 key) in
           (case createCipheriv (utf8_encode key) iv of
              Inl e \<Rightarrow> Inl e
            | Inr decipher \<Rightarrow>
                (case data of
                   JStr hex \<Rightarrow>
                     if odd (length hex) then Inl (invalid_hex_length (length hex))
                     else
                       (let (out1, decipher') = decipher_update decipher (hex_decode hex) in
                        (case decipher_final decipher' of
                           Inl e \<Rightarrow> Inl e
                         | Inr out2 \<Rightarrow> JSON_parse (utf8_decode (out1 @ out2))))
                 | _ \<Rightarrow> Inl invalid_data_type))))"

subsection \<open>\<open>getCpuUsage\<close> (lines 116 to 136)\<close>

text \<open>One entry of \<open>os.cpus()\<close>: the \<open>times\<close> of a core, in milliseconds.\<close>

record cpu_times =
  user :: nat
  nice :: nat
  sys :: nat
  idle :: nat
  irq :: nat

record cpu_usage =
  user :: jsstring
  system :: jsstring
  idle :: jsstring
  total :: number

definition tick :: "nat \<Rightarrow> number" where
  "tick n = Num (of_nat n)"

text \<open>The five sums of the \<open>forEach\<close> loop, one accumulator each.\<close>

definition sum_ticks :: "(cpu_times \<Rightarrow> nat) \<Rightarrow> cpu_times list \<Rightarrow> number" where
  "sum_ticks f cpus = foldl (\<lambda>acc cpu. js_add acc (tick (f cpu))) (Num 0) cpus"

definition percent :: "number \<Rightarrow> number \<Rightarrow> number" where
  "percent part whole = js_mul (js_div part whole) (Num 100)"

definition getCpuUsage :: "cpu_times list \<Rightarrow> cpu_usage" where
  "getCpuUsage cpus =
     (let user' = sum_ticks cpu_times.user cpus;
          nice' = sum_ticks nice cpus;
          sys' = sum_ticks sys cpus;
          idle' = sum_ticks cpu_times.idle cpus;
          irq' = sum_ticks irq cpus;
          total' = js_add (js_add (js_add (js_add user' nice') sys') idle') irq'
      in \<lparr>user = toFixed 2 (percent user' total'),
          system = toFixed 2 (percent sys' total'),
          idle = toFixed 2 (percent idle' total'),
          total = total'\<rparr>)"

subsection \<open>The world the middleware runs in\<close>

record memory_usage =
  rss :: nat
  heapTotal :: nat
  heapUsed :: nat
  external :: nat

record request =
  http_method :: jsstring
  url :: jsstring

record response =
  statusCode :: int
  finished :: bool

text \<open>
  What the listener reads from the runtime when the response has finished: the
  monotonic clock in nanoseconds (\<open>process.hrtime\<close>), \<open>process.memoryUsage()\<close>,
  \<open>os.cpus()\<close> and \<open>new Date().toISOString()\<close>.
\<close>

record probe =
  hr_now :: nat
  memoryUsage :: memory_usage
  cpus :: "cpu_times list"
  iso_now :: jsstring

text \<open>
  The state outside the program: the file at \<open>logFilePath\<close> (\<open>None\<close> when it does not
  exist), the error \<open>fs.writeFileSync\<close> would throw, the rejections the database client
  would answer \<open>connect\<close>, the creation of the table and an insert with, the rows or
  documents the database holds, the lines of \<open>console.log\<close> and of \<open>console.error\<close>,
  and the response object.
\<close>

record world =
  log_file :: "byte list option"
  write_fault :: "error option"
  connect_fault :: "error option"
  create_fault :: "error option"
  db_fault :: "error option"
  db_rows :: "json list"
  console_log :: "string list"
  console_error :: "(string \<times> error) list"
  response :: response

subsection \<open>The connection to the database (lines 36 to 65)\<close>

text \<open>
  What follows the start-up once the promises of \<open>connect\<close> settle. For \<open>sql\<close> both
  promises have a \<open>catch\<close>: a failure is a line of \<open>console.error\<close>. For \<open>nosql\<close> the
  promise of line 65 has no handler: a failure is a rejection that nothing handles,
  \<open>Inl\<close> here, which ends the process on a runtime that treats it as an exception.
\<close>

definition connect_database :: "logger_module \<Rightarrow> world \<Rightarrow> error + world" where
  "connect_database ctx w =
     (if dbType ctx = js ''sql'' then
        (case connect_fault w of
           Some e \<Rightarrow>
             Inr (w\<lparr>console_error :=
                      console_error w @ [(''Failed to connect to the database:'', e)]\<rparr>)
         | None \<Rightarrow>
             (case create_fault w of
                Some e \<Rightarrow>
                  Inr (w\<lparr>console_error :=
                           console_error w @ [(''Error creating logs table:'', e)]\<rparr>)
              | None \<Rightarrow>
                  Inr (w\<lparr>console_log :=
                           console_log w @ [''Logs table created successfully'']\<rparr>)))
      else if dbType ctx = js ''nosql'' then
        (case connect_fault w of
           Some e \<Rightarrow> Inl e
         | None \<Rightarrow> Inr w)
      else Inr w)"

subsection \<open>\<open>logger\<close> (lines 144 to 191)\<close>

text \<open>\<open>process.hrtime()\<close> and \<open>process.hrtime(start)\<close>, as Node computes them.\<close>

definition hrtime :: "nat \<Rightarrow> nat \<times> nat" where
  "hrtime t = (t div 10 ^ 9, t mod 10 ^ 9)"

definition hrtime_since :: "nat \<times> nat \<Rightarrow> nat \<Rightarrow> int \<times> int" where
  "hrtime_since start t =
     (let (s1, n1) = hrtime t;
          sec = int s1 - int (fst start);
          nsec = int n1 - int (snd start)
      in if nsec < 0 then (sec - 1, nsec + 10 ^ 9) else (sec, nsec))"

definition elapsedTimeInMs :: "int \<times> int \<Rightarrow> number" where
  "elapsedTimeInMs elapsed =
     js_add (js_mul (Num (of_int (fst elapsed))) (Num 1000))
            (js_div (Num (of_int (snd elapsed))) (Num 1000000))"

text \<open>The \<open>log\<close> object of lines 151 to 164, field by field.\<close>

definition memory_json :: "memory_usage \<Rightarrow> json" where
  "memory_json m =
     JObj [(js ''rss'', JNum (tick (rss m))), (js ''heapTotal'', JNum (tick (heapTotal m))),
           (js ''heapUsed'', JNum (tick (heapUsed m))), (js ''external'', JNum (tick (external m)))]"

definition cpu_json :: "cpu_usage \<Rightarrow> json" where
  "cpu_json u =
     JObj [(js ''user'', JStr (cpu_usage.user u)), (js ''system'', JStr (system u)),
           (js ''idle'', JStr (cpu_usage.idle u)), (js ''total'', JNum (total u))]"

record log_record =
  log_method :: jsstring
  log_url :: jsstring
  log_statusCode :: int
  responseTime :: jsstring
  timestamp :: jsstring
  log_memoryUsage :: memory_usage
  cpuUsage :: cpu_usage

definition log_json :: "log_record \<Rightarrow> json" where
  "log_json l =
     JObj [(js ''method'', JStr (log_method l)), (js ''url'', JStr (log_url l)),
           (js ''statusCode'', JNum (Num (of_int (log_statusCode l)))),
           (js ''responseTime'', JStr (responseTime l)),
           (js ''timestamp'', JStr (timestamp l)),
           (js ''memoryUsage'', memory_json (log_memoryUsage l)),
           (js ''cpuUsage'', cpu_json (cpuUsage l))]"

definition make_log :: "request \<Rightarrow> response \<Rightarrow> nat \<times> nat \<Rightarrow> probe \<Rightarrow> log_record" where
  "make_log req res start p =
     (let elapsed = hrtime_since start (hr_now p) in
      \<lparr>log_method = http_method req, log_url = url req, log_statusCode = statusCode res,
       responseTime = toFixed 3 (elapsedTimeInMs elapsed),
       timestamp = iso_now p,
       log_memoryUsage = memoryUsage p,
       cpuUsage = getCpuUsage (cpus p)\<rparr>)"

text \<open>\<open>logs.push(x)\<close>: only an array has \<open>push\<close>.\<close>

definition push :: "json \<Rightarrow> json \<Rightarrow> error + json" where
  "push logs x =
     (case logs of
        JArr xs \<Rightarrow> Inr (JArr (xs @ [x]))
      | JNull \<Rightarrow> Inl (TypeError (js ''Cannot read properties of null''))
      | _ \<Rightarrow> Inl (TypeError (js ''logs.push is not a function'')))"

definition writeFileSync :: "jsstring \<Rightarrow> world \<Rightarrow> error + world" where
  "writeFileSync s w =
     (case write_fault w of
        Some e \<Rightarrow> Inl e
      | None \<Rightarrow> Inr (w\<lparr>log_file := Some (utf8_encode s)\<rparr>))"

text \<open>The branch for \<open>dbType === 'text'\<close>, lines 168 to 177.\<close>

definition text_write :: "logger_module \<Rightarrow> json \<Rightarrow> world \<Rightarrow> error + world" where
  "text_write ctx log_obj w =
     (case encryptLogData ctx log_obj of
        Inl e \<Rightarrow> Inl e
      | Inr encryptedLog \<Rightarrow>
          (case (case log_file w of
                   None \<Rightarrow> Inr (JArr [])
                 | Some bytes \<Rightarrow>
                     (let fileData = utf8_decode bytes in
                      if fileData \<noteq> [] then JSON_parse fileData else Inr (JArr []))) of
             Inl e \<Rightarrow> Inl e
           | Inr logs \<Rightarrow>
               (case push logs encryptedLog of
                  Inl e \<Rightarrow> Inl e
                | Inr logs' \<Rightarrow> writeFileSync (JSON_stringify2 logs') w)))"

text \<open>The insert of the \<open>sql\<close> and \<open>nosql\<close> branches, lines 179 to 184.\<close>

definition db_insert :: "json \<Rightarrow> world \<Rightarrow> error + world" where
  "db_insert row w =
     (case db_fault w of
        Some e \<Rightarrow> Inl e
      | None \<Rightarrow> Inr (w\<lparr>db_rows := db_rows w @ [row]\<rparr>))"

definition sql_row :: "log_record \<Rightarrow> json" where
  "sql_row l =
     JArr [JStr (log_method l), JStr (log_url l), JNum (Num (of_int (log_statusCode l))),
           JStr (responseTime l), JStr (timestamp l),
           JStr (JSON_stringify (memory_json (log_memoryUsage l))),
           JStr (JSON_stringify (cpu_json (cpuUsage l)))]"

text \<open>The body of the \<open>try\<close> block.\<close>

definition store :: "logger_module \<Rightarrow> log_record \<Rightarrow> world \<Rightarrow> error + world" where
  "store ctx l w =
     (if dbType ctx = js ''text'' then text_write ctx (log_json l) w
      else if dbType ctx = js ''sql'' then db_insert (sql_row l) w
      else if dbType ctx = js ''nosql'' then db_insert (log_json l) w
      else Inr w)"

text \<open>
  The listener registered on \<open>'finish'\<close>. \<open>Inl\<close> would be an exception that leaves the
  listener; the \<open>catch\<close> clause turns every failure of \<open>store\<close> into a line on the console.
\<close>

definition on_finish ::
  "logger_module \<Rightarrow> request \<Rightarrow> nat \<times> nat \<Rightarrow> probe \<Rightarrow> world \<Rightarrow> error + world" where
  "on_finish ctx req start p w =
     (let l = make_log req (response w) start p in
      case store ctx l w of
        Inl e \<Rightarrow> Inr (w\<lparr>console_error := console_error w @ [(''Error logging data:'', e)]\<rparr>)
      | Inr w' \<Rightarrow> Inr w')"

text \<open>
  \<open>logger\<close> reads the clock, registers the listener and calls \<open>next()\<close>; its result here
  is the listener.
\<close>

definition logger ::
  "logger_module \<Rightarrow> request \<Rightarrow> nat \<Rightarrow> probe \<Rightarrow> world \<Rightarrow> error + world" where
  "logger ctx req t0 = (let start = hrtime t0 in on_finish ctx req start)"

subsection \<open>\<open>readTextLogs\<close> (lines 197 to 212)\<close>

fun map_err :: "('a \<Rightarrow> error + 'b) \<Rightarrow> 'a list \<Rightarrow> error + 'b list" where
  "map_err f [] = Inr []"
| "map_err f (x # xs) =
     (case f x of
        Inl e \<Rightarrow> Inl e
      | Inr y \<Rightarrow> (case map_err f xs of Inl e \<Rightarrow> Inl e | Inr ys \<Rightarrow> Inr (y # ys)))"

definition readFileSync :: "world \<Rightarrow> error + jsstring" where
  "readFileSync w =
     (case log_file w of
        None \<Rightarrow> Inl (SystemError (js ''ENOENT''))
      | Some bytes \<Rightarrow> Inr (utf8_decode bytes))"

definition readTextLogs :: "logger_module \<Rightarrow> world \<Rightarrow> error + json" where
  "readTextLogs ctx w =
     (if dbType ctx \<noteq> js ''text''
      then Inl (Error (js ''Text file path is not specified in the configuration file''))
      else
        (case readFileSync w of
           Inl e \<Rightarrow> Inl e
         | Inr fileData \<Rightarrow>
             if fileData = [] then Inl (Error (js ''Log file is empty''))
             else
               (case JSON_parse fileData of
                  Inl e \<Rightarrow> Inl e
                | Inr logs \<Rightarrow>
                    (case cfg_text (conf ctx) of
                       None \<Rightarrow> Inl (TypeError (js ''Cannot read properties of undefined''))
                     | Some t \<Rightarrow>
                         if enable_log_security t then
                           (case logs of
                              JArr xs \<Rightarrow>
                                (case map_err (decryptLogData ctx) xs of
                                   Inl e \<Rightarrow> Inl e
                                 | Inr ys \<Rightarrow> Inr (JArr ys))
                            | JNull \<Rightarrow> Inl (TypeError (js ''Cannot read properties of null''))
                            | _ \<Rightarrow> Inl (TypeError (js ''logs.map is not a function'')))
                         else Inr logs))))"

section \<open>Sample configurations and worlds\<close>

text \<open>Concrete inputs, used where a theorem below is applied to a case.\<close>

definition key32 :: jsstring where
  "key32 = js ''abcdefghijklmnopqrstuvwxyz012345''"

definition key31 :: jsstring where
  "key31 = js ''abcdefghijklmnopqrstuvwxyz01234''"

definition key33 :: jsstring where
  "key33 = js ''abcdefghijklmnopqrstuvwxyz0123456''"

text \<open>U+00E9 followed by 30 ASCII characters: 32 bytes in UTF-8, 31 code units.\<close>

definition key_e_acute :: jsstring where
  "key_e_acute = 0xE9 # js ''abcdefghijklmnopqrstuvwxyz0123''"

text \<open>\<open>path.resolve(process.cwd(), 'logger.conf.json')\<close> of an application in \<open>/srv/app\<close>.\<close>

definition config_path :: jsstring where
  "config_path = js ''/srv/app/logger.conf.json''"

definition text_cfg :: "bool \<Rightarrow> jsstring \<Rightarrow> config" where
  "text_cfg enable key =
     \<lparr>database_type = Some (js ''text''),
      cfg_text = Some \<lparr>file_path = Some (js ''./logs/log.txt''), enable_log_security = enable,
                        log_security_encryption_key = Some key\<rparr>,
      cfg_sql = None, cfg_nosql = None\<rparr>"

definition text_module :: "bool \<Rightarrow> jsstring \<Rightarrow> logger_module" where
  "text_module enable key =
     \<lparr>conf = text_cfg enable key, dbType = js ''text'',
      logFilePath = Some (js ''./logs/log.txt''),
      enableTextEncryption = enable,
      encryptionKey = (if enable then Some key else None)\<rparr>"

definition sql_cfg :: config where
  "sql_cfg =
     \<lparr>database_type = Some (js ''sql''), cfg_text = None,
      cfg_sql = Some \<lparr>connectionString = Some (js ''postgres://db''), collectionName = None\<rparr>,
      cfg_nosql = None\<rparr>"

definition sql_module :: logger_module where
  "sql_module =
     \<lparr>conf = sql_cfg, dbType = js ''sql'', logFilePath = None,
      enableTextEncryption = False, encryptionKey = None\<rparr>"

definition fresh_world :: world where
  "fresh_world =
     \<lparr>log_file = None, write_fault = None, connect_fault = None, create_fault = None,
      db_fault = None, db_rows = [], console_log = [], console_error = [],
      response = \<lparr>statusCode = 200, finished = True\<rparr>\<rparr>"

definition sample_request :: request where
  "sample_request = \<lparr>http_method = js ''GET'', url = js ''/''\<rparr>"

definition sample_probe :: probe where
  "sample_probe =
     \<lparr>hr_now = 5042000123,
      memoryUsage = \<lparr>rss = 1000, heapTotal = 20, heapUsed = 10, external = 3\<rparr>,
      cpus = [\<lparr>cpu_times.user = 2, nice = 0, sys = 2, cpu_times.idle = 32764, irq = 0\<rparr>],
      iso_now = js ''2024-01-01T00:00:00.000Z''\<rparr>"

section \<open>Notions used in the statements\<close>

text \<open>
  AES-256-CBC of a whole message in one step: the message padded to full blocks
  (PKCS#7), cut into blocks and chained from the IV.
\<close>

definition pkcs7_pad :: "byte list \<Rightarrow> byte list" where
  "pkcs7_pad m = m @ replicate (16 - length m mod 16) (of_nat (16 - length m mod 16))"

definition aes_256_cbc :: "byte list \<Rightarrow> byte list \<Rightarrow> byte list \<Rightarrow> byte list" where
  "aes_256_cbc key iv m = cbc_encrypt (key_expansion key) iv (blocks (pkcs7_pad m))"

text \<open>The chaining block after a sequence of plaintext blocks.\<close>

fun cbc_chain :: "col list \<Rightarrow> byte list \<Rightarrow> byte list list \<Rightarrow> byte list" where
  "cbc_chain w prev [] = prev"
| "cbc_chain w prev (p # ps) = cbc_chain w (encrypt_block w (xor_bytes p prev)) ps"

definition ascii :: "jsstring \<Rightarrow> bool" where
  "ascii s \<longleftrightarrow> (\<forall>c \<in> set s. unat c < 0x80)"

text \<open>
  A key that \<open>createCipheriv\<close> accepts as \<open>encryptLogData\<close> passes it: 32 bytes, and 16
  bytes for its first 16 code units.
\<close>

definition usable_key :: "jsstring \<Rightarrow> bool" where
  "usable_key key \<longleftrightarrow>
     length (utf8_encode key) = 32 \<and> length (utf8_encode (take 16 key)) = 16"

text \<open>
  A value that \<open>JSON\<close> reads back from its own text, after the text has gone through
  UTF-8: what the specification calls serialisable.
\<close>

definition survives_json :: "json \<Rightarrow> bool" where
  "survives_json r \<longleftrightarrow> JSON_parse (utf8_decode (utf8_encode (JSON_stringify r))) = Inr r"

definition sample_entry :: json where
  "sample_entry = JObj [(js ''method'', JStr (js ''GET'')), (js ''url'', JStr (js ''/a?b=1''))]"

text \<open>The exact sums of tick counters over all cores.\<close>

definition ticks :: "(cpu_times \<Rightarrow> nat) \<Rightarrow> cpu_times list \<Rightarrow> nat" where
  "ticks f cs = sum_list (map f cs)"

definition ticks_total :: "cpu_times list \<Rightarrow> nat" where
  "ticks_total cs =
     ticks cpu_times.user cs + ticks nice cs + ticks sys cs + ticks cpu_times.idle cs + ticks irq cs"

definition snapshot_rounding :: "cpu_times list" where
  "snapshot_rounding =
     [\<lparr>cpu_times.user = 2, nice = 0, sys = 2, cpu_times.idle = 32764, irq = 0\<rparr>]"

definition snapshot_zero :: "cpu_times list" where
  "snapshot_zero =
     [\<lparr>cpu_times.user = 0, nice = 0, sys = 0, cpu_times.idle = 0, irq = 0\<rparr>]"

section \<open>Start-up\<close>

lemma load_module_text_module:
  "key \<noteq> [] \<Longrightarrow> load_module path (Inr (text_cfg enable key)) = Inr (text_module enable key)"
  by (simp add: load_module_def text_cfg_def text_module_def falsy_def Let_def js_def)

lemma load_module_sql_module: "load_module path (Inr sql_cfg) = Inr sql_module"
  by (simp add: load_module_def sql_cfg_def sql_module_def falsy_def Let_def js_def)

lemma load_module_dbType:
  assumes "load_module path (Inr cfg) = Inr ctx"
  shows "database_type cfg = Some (dbType ctx)" and "conf ctx = cfg"
  using assms
  by (auto simp: load_module_def falsy_def Let_def split: if_splits option.splits)

section \<open>What a write leaves alone\<close>

lemma writeFileSync_frame:
  "writeFileSync s w = Inr w' \<Longrightarrow> response w' = response w \<and> console_error w' = console_error w"
  by (auto simp: writeFileSync_def split: option.splits)

lemma text_write_frame:
  "text_write ctx l w = Inr w' \<Longrightarrow> response w' = response w \<and> console_error w' = console_error w"
  by (auto simp: text_write_def split: sum.splits dest: writeFileSync_frame)

lemma db_insert_frame:
  "db_insert r w = Inr w' \<Longrightarrow> response w' = response w \<and> console_error w' = console_error w"
  by (auto simp: db_insert_def split: option.splits)

lemma store_frame:
  "store ctx l w = Inr w' \<Longrightarrow> response w' = response w \<and> console_error w' = console_error w"
  by (auto simp: store_def split: if_splits dest: text_write_frame db_insert_frame)

section \<open>Keys and their UTF-8 encoding\<close>

lemma length_utf8_cp_pos: "Suc 0 \<le> length (utf8_cp n)"
  by (simp add: utf8_cp_def)

lemma length_utf8_cp_1: "length (utf8_cp n) = Suc 0 \<longleftrightarrow> n < 0x80"
  by (simp add: utf8_cp_def)

lemma unit_cp_ascii: "unit_cp c < 0x80 \<longleftrightarrow> unat c < 0x80"
  by (auto simp: unit_cp_def is_surrogate_def)

lemma length_utf8_pair: "is_high c \<Longrightarrow> is_low d \<Longrightarrow> length (utf8_cp (pair_cp c d)) = 4"
  by (simp add: utf8_cp_def pair_cp_def)

lemma length_utf8_encode_ge: "length s \<le> length (utf8_encode s)"
proof (induction s rule: utf8_encode.induct)
  case 1
  then show ?case by simp
next
  case (2 c)
  then show ?case using length_utf8_cp_pos [of "unit_cp c"] by simp
next
  case (3 c d cs)
  then show ?case
    using length_utf8_cp_pos [of "unit_cp c"] by (auto simp: length_utf8_pair)
qed

lemma utf8_encode_Cons_ascii:
  "unat c < 0x80 \<Longrightarrow> utf8_encode (c # s) = of_nat (unat c) # utf8_encode s"
  by (cases s) (auto simp: utf8_cp_def unit_cp_def is_surrogate_def is_high_def)

lemma utf8_encode_ascii_append:
  "ascii s \<Longrightarrow> utf8_encode (s @ t) = map (\<lambda>c. of_nat (unat c)) s @ utf8_encode t"
  by (induction s) (auto simp: ascii_def utf8_encode_Cons_ascii)

lemma utf8_encode_ascii: "ascii s \<Longrightarrow> utf8_encode s = map (\<lambda>c. of_nat (unat c)) s"
  using utf8_encode_ascii_append [of s "[]"] by simp

lemma length_utf8_encode_eq_ascii:
  "length (utf8_encode s) = length s \<Longrightarrow> ascii s"
proof (induction s rule: utf8_encode.induct)
  case 1
  then show ?case by (simp add: ascii_def)
next
  case (2 c)
  then show ?case by (simp add: ascii_def length_utf8_cp_1 unit_cp_ascii)
next
  case (3 c d cs)
  show ?case
  proof (cases "is_high c \<and> is_low d")
    case True
    with 3(3) length_utf8_encode_ge [of cs] show ?thesis
      by (simp add: length_utf8_pair)
  next
    case False
    have ge: "length (d # cs) \<le> length (utf8_encode (d # cs))"
      by (rule length_utf8_encode_ge)
    from False have "utf8_encode (c # d # cs) = utf8_cp (unit_cp c) @ utf8_encode (d # cs)"
      by auto
    with 3(3) have eq: "length (utf8_cp (unit_cp c)) + length (utf8_encode (d # cs)) = Suc (length (d # cs))"
      by simp
    with ge length_utf8_cp_pos [of "unit_cp c"]
    have one: "length (utf8_cp (unit_cp c)) = Suc 0" and rest: "length (utf8_encode (d # cs)) = length (d # cs)"
      by linarith+
    from 3(2) [OF False rest] one show ?thesis
      by (simp add: ascii_def length_utf8_cp_1 unit_cp_ascii)
  qed
qed

lemma usable_key_iv:
  assumes "usable_key key"
  shows "utf8_encode (take 16 key) = take 16 (utf8_encode key)" and "ascii (take 16 key)"
proof -
  from assms have l32: "length (utf8_encode key) = 32" and l16: "length (utf8_encode (take 16 key)) = 16"
    by (simp_all add: usable_key_def)
  have "length key \<ge> 16"
  proof (rule ccontr)
    assume "\<not> 16 \<le> length key"
    then have "take 16 key = key" by simp
    with l32 l16 show False by simp
  qed
  then have len: "length (take 16 key) = 16" by simp
  with l16 show a: "ascii (take 16 key)"
    by (intro length_utf8_encode_eq_ascii) simp
  have "utf8_encode key = utf8_encode (take 16 key @ drop 16 key)" by simp
  also have "\<dots> = map (\<lambda>c. of_nat (unat c)) (take 16 key) @ utf8_encode (drop 16 key)"
    by (rule utf8_encode_ascii_append [OF a])
  finally have "take 16 (utf8_encode key) = map (\<lambda>c. of_nat (unat c)) (take 16 key)"
    using len by simp
  with utf8_encode_ascii [OF a] show "utf8_encode (take 16 key) = take 16 (utf8_encode key)"
    by simp
qed

lemma usable_key32: "usable_key key32"
  by (simp add: usable_key_def key32_def js_def utf8_cp_def unit_cp_def is_surrogate_def is_high_def)

lemma length_key31: "length (utf8_encode key31) = 31"
  by (simp add: key31_def js_def utf8_cp_def unit_cp_def is_surrogate_def is_high_def)

lemma length_key_e_acute: "length (utf8_encode key_e_acute) = 32 \<and> length (utf8_encode (take 16 key_e_acute)) = 17"
  by (simp add: key_e_acute_def js_def utf8_cp_def unit_cp_def is_surrogate_def is_high_def)

section \<open>The cipher object computes AES-256-CBC\<close>

lemma length_state_bytes: "length (state_bytes s) = 16"
  by (cases s) (auto simp: split_paired_all)

lemma length_encrypt_block: "length (encrypt_block w b) = 16"
  by (simp add: encrypt_block_def length_state_bytes)

lemma length_decrypt_block: "length (decrypt_block w b) = 16"
  by (simp add: decrypt_block_def length_state_bytes)

lemma length_cbc_encrypt: "length (cbc_encrypt w p bl) = 16 * length bl"
  by (induction bl arbitrary: p) (auto simp: Let_def length_encrypt_block)

lemma cbc_encrypt_append:
  "cbc_encrypt w p (xs @ ys) = cbc_encrypt w p xs @ cbc_encrypt w (cbc_chain w p xs) ys"
  by (induction xs arbitrary: p) (auto simp: Let_def)

lemma cbc_encrypt_last:
  "xs \<noteq> [] \<Longrightarrow> drop (16 * (length xs - 1)) (cbc_encrypt w p xs) = cbc_chain w p xs"
proof (induction xs arbitrary: p)
  case Nil
  then show ?case by simp
next
  case (Cons x xs)
  show ?case
  proof (cases xs)
    case Nil
    then show ?thesis by (simp add: Let_def length_encrypt_block)
  next
    case (Cons y ys)
    with Cons.IH [of "encrypt_block w (xor_bytes x p)"] show ?thesis
      by (simp add: Let_def length_encrypt_block)
  qed
qed

lemma blocks_short: "length bs < 16 \<Longrightarrow> blocks bs = []"
  by (subst blocks.simps) simp

lemma blocks_Cons: "length b = 16 \<Longrightarrow> blocks (b @ r) = b # blocks r"
  by (subst blocks.simps) simp

lemma blocks_append: "length a = 16 * n \<Longrightarrow> blocks (a @ b) = blocks a @ blocks b"
proof (induction n arbitrary: a)
  case 0
  then show ?case by (simp add: blocks_short)
next
  case (Suc n)
  define h where "h = take 16 a"
  define t where "t = drop 16 a"
  from Suc.prems have a: "a = h @ t" and lh: "length h = 16" and lt: "length t = 16 * n"
    by (simp_all add: h_def t_def)
  from Suc.IH [OF lt] lh show ?case
    by (simp add: a blocks_Cons)
qed

lemma length_blocks: "length a = 16 * n \<Longrightarrow> length (blocks a) = n"
proof (induction n arbitrary: a)
  case 0
  then show ?case by (simp add: blocks_short)
next
  case (Suc n)
  define h where "h = take 16 a"
  define t where "t = drop 16 a"
  from Suc.prems have a: "a = h @ t" and lh: "length h = 16" and lt: "length t = 16 * n"
    by (simp_all add: h_def t_def)
  from Suc.IH [OF lt] lh show ?case
    by (simp add: a blocks_Cons)
qed

lemma hex_encode_append: "hex_encode (a @ b) = hex_encode a @ hex_encode b"
  by (simp add: hex_encode_def)

lemma pkcs7_pad_split:
  "pkcs7_pad m = take (16 * (length m div 16)) m
       @ (drop (16 * (length m div 16)) m
            @ replicate (16 - length m mod 16) (of_nat (16 - length m mod 16)))"
  by (simp add: pkcs7_pad_def)

lemma length_last_block:
  "length (drop (16 * (length m div 16)) m
            @ replicate (16 - length m mod 16) (x :: byte)) = 16"
proof -
  have "length m - 16 * (length m div 16) = length m mod 16"
    by (simp add: minus_mult_div_eq_mod mult.commute)
  then show ?thesis by simp
qed

lemma cipher_run:
  "cipher_update \<lparr>sched = w, chain = iv, pending = []\<rparr> m = (out1, c1) \<Longrightarrow>
   out1 @ cipher_final c1 = cbc_encrypt w iv (blocks (pkcs7_pad m))"
proof -
  assume u: "cipher_update \<lparr>sched = w, chain = iv, pending = []\<rparr> m = (out1, c1)"
  define n where "n = length m div 16"
  define a where "a = take (16 * n) m"
  define b where "b = drop (16 * n) m"
  define k where "k = 16 - length m mod 16"
  have la: "length a = 16 * n"
    by (simp add: a_def n_def)
  have lb: "length b = length m mod 16"
    by (simp add: b_def n_def minus_mult_div_eq_mod mult.commute)
  have lbl: "length (blocks a) = n"
    by (rule length_blocks [OF la])
  from u have o1: "out1 = cbc_encrypt w iv (blocks a)"
    and s: "sched c1 = w" and p: "pending c1 = b"
    and c: "chain c1 = (if n = 0 then iv else drop (16 * (n - 1)) out1)"
    by (auto simp: cipher_update_def Let_def n_def a_def b_def)
  have ch: "chain c1 = cbc_chain w iv (blocks a)"
  proof (cases "n = 0")
    case True
    with la c show ?thesis by (simp add: blocks_short)
  next
    case False
    with lbl have "blocks a \<noteq> []" by auto
    from cbc_encrypt_last [OF this, of w iv] False c lbl o1 show ?thesis by simp
  qed
  have l16: "length (b @ replicate k (of_nat k :: byte)) = 16"
    unfolding b_def k_def n_def by (rule length_last_block)
  have "blocks (pkcs7_pad m) = blocks (a @ (b @ replicate k (of_nat k)))"
    unfolding a_def b_def k_def n_def by (subst pkcs7_pad_split) simp
  also have "\<dots> = blocks a @ blocks ((b @ replicate k (of_nat k)) @ [])"
    using blocks_append [OF la] by simp
  also have "\<dots> = blocks a @ [b @ replicate k (of_nat k)]"
    by (simp only: blocks_Cons [OF l16]) (simp add: blocks_short)
  finally have bl: "blocks (pkcs7_pad m) = blocks a @ [b @ replicate k (of_nat k)]" .
  have "cipher_final c1 = cbc_encrypt w (chain c1) [b @ replicate k (of_nat k)]"
    by (simp add: cipher_final_def Let_def s p lb k_def)
  with o1 ch bl show ?thesis
    by (simp add: cbc_encrypt_append)
qed

lemma encryptLogData_enabled:
  assumes "enableTextEncryption ctx" and "encryptionKey ctx = Some key"
  shows "encryptLogData ctx l =
           (if length (utf8_encode (take 16 key)) \<noteq> 16
            then Inl (CryptoError (js ''Invalid initialization vector''))
            else if length (utf8_encode key) \<noteq> 32 then Inl (CryptoError (js ''Invalid key length''))
            else Inr (JStr (hex_encode (aes_256_cbc (utf8_encode key) (utf8_encode (take 16 key))
                                          (utf8_encode (JSON_stringify l))))))"
proof -
  obtain out1 c1 where u: "cipher_update \<lparr>sched = key_expansion (utf8_encode key),
       chain = utf8_encode (take 16 key), pending = []\<rparr> (utf8_encode (JSON_stringify l)) = (out1, c1)"
    by (cases "cipher_update \<lparr>sched = key_expansion (utf8_encode key),
       chain = utf8_encode (take 16 key), pending = []\<rparr> (utf8_encode (JSON_stringify l))") blast
  from cipher_run [OF u] u assms show ?thesis
    by (simp add: encryptLogData_def createCipheriv_def Let_def hex_encode_append [symmetric] aes_256_cbc_def)
qed

section \<open>What \<open>encryptLogData\<close> returns\<close>

lemma load_module_text:
  assumes "database_type cfg = Some (js ''text'')" and "cfg_text cfg = Some t"
    and "\<not> falsy (file_path t)"
  shows "load_module path (Inr cfg) =
           (if enable_log_security t \<and> falsy (log_security_encryption_key t)
            then Inl (Error (js ''Encryption key is not set in the configuration file''))
            else Inr \<lparr>conf = cfg, dbType = js ''text'', logFilePath = file_path t,
                     enableTextEncryption = enable_log_security t,
                     encryptionKey = (if enable_log_security t
                                      then log_security_encryption_key t else None)\<rparr>)"
  using assms by (auto simp add: load_module_def falsy_def Let_def js_def)

lemma text_write_encrypt_fails:
  "encryptLogData ctx l = Inl e \<Longrightarrow> text_write ctx l w = Inl e"
  by (simp add: text_write_def)

lemma logger_text_encrypt_fails:
  assumes "dbType ctx = js ''text''"
    and "\<And>l. \<exists>e. encryptLogData ctx l = Inl e"
  shows "\<exists>w'. logger ctx req t0 p w = Inr w' \<and> log_file w' = log_file w"
proof -
  obtain e where "encryptLogData ctx (log_json (make_log req (response w) (hrtime t0) p)) = Inl e"
    using assms(2) by blast
  then have "store ctx (make_log req (response w) (hrtime t0) p) w = Inl e"
    using assms(1) by (simp add: store_def text_write_encrypt_fails)
  then show ?thesis
    by (simp add: logger_def on_finish_def Let_def)
qed

lemma ascii_usable: "ascii key \<Longrightarrow> usable_key key \<longleftrightarrow> length key = 32"
proof -
  assume a: "ascii key"
  then have "ascii (take 16 key)"
    by (auto simp: ascii_def dest: in_set_takeD)
  with a show ?thesis
    by (auto simp: usable_key_def utf8_encode_ascii)
qed

lemma ascii_js_keys: "ascii key31" "ascii key32" "ascii key33"
  by (simp_all add: ascii_def key31_def key32_def key33_def js_def)


section \<open>Rounding to binary64\<close>

lemma scale_powi: "scale e x = x * 2 powi e"
  by (cases "0 \<le> e") (simp_all add: scale_def power_int_def field_simps)

lemma binade_bounds:
  assumes "x \<noteq> 0"
  shows "2 powi binade x \<le> \<bar>x\<bar>" and "\<bar>x\<bar> < 2 powi (binade x + 1)"
proof -
  define a where "a = \<bar>x\<bar>"
  have a0: "0 < a" using assms by (simp add: a_def)
  have "2 powi binade x \<le> a \<and> a < 2 powi (binade x + 1)"
  proof (cases "1 \<le> a")
    case True
    define n where "n = nat \<lfloor>a\<rfloor>"
    define k where "k = floorlog 2 n"
    from True have fl1: "1 \<le> \<lfloor>a\<rfloor>" by simp
    then have n0: "0 < n" by (simp add: n_def)
    from floorlog_bounds [OF n0, of 2] have lo: "2 ^ (k - 1) \<le> n" and hi: "n < 2 ^ k"
      by (simp_all add: k_def)
    from n0 have k0: "0 < k"
      by (simp add: k_def floorlog_def)
    have b: "binade x = int k - 1"
      using True by (simp add: binade_def a_def k_def n_def)
    have "rat_of_int \<lfloor>a\<rfloor> \<le> a" and "a < rat_of_int \<lfloor>a\<rfloor> + 1"
      by linarith+
    moreover have "rat_of_nat n = rat_of_int \<lfloor>a\<rfloor>"
      using fl1 by (simp add: n_def)
    ultimately have na: "rat_of_nat n \<le> a" and an: "a < rat_of_nat n + 1"
      by simp_all
    have p1: "(2::rat) powi (int k - 1) = 2 ^ (k - 1)"
      using k0 by (simp add: power_int_def nat_diff_distrib')
    have p2: "(2::rat) powi (int k - 1 + 1) = 2 ^ k"
      by simp
    from lo have "(2::rat) ^ (k - 1) \<le> rat_of_nat n"
      by (metis of_nat_le_iff of_nat_numeral of_nat_power)
    from order_trans [OF this na] have l: "2 powi binade x \<le> a" by (simp only: b p1)
    from hi have "n + 1 \<le> 2 ^ k" by simp
    then have "rat_of_nat (n + 1) \<le> 2 ^ k"
      by (metis of_nat_le_iff of_nat_numeral of_nat_power)
    then have "rat_of_nat n + 1 \<le> 2 ^ k" by (simp only: of_nat_add of_nat_1)
    from less_le_trans [OF an this] have "a < 2 ^ k" .
    then have "a < 2 powi (binade x + 1)" by (simp add: b)
    with l show ?thesis by simp
  next
    case False
    define y where "y = 1 / a"
    from False a0 have y1: "1 < y" by (simp add: y_def)
    define c where "c = \<lceil>y\<rceil>"
    define m where "m = nat (c - 1)"
    define k where "k = floorlog 2 m"
    from y1 have c2: "2 \<le> c" unfolding c_def by linarith
    then have m0: "0 < m" by (simp add: m_def)
    from floorlog_bounds [OF m0, of 2] have lo: "2 ^ (k - 1) \<le> m" and hi: "m < 2 ^ k"
      by (simp_all add: k_def)
    from m0 have k0: "0 < k"
      by (simp add: k_def floorlog_def)
    have b: "binade x = - int k"
      using False by (simp add: binade_def a_def k_def m_def c_def y_def)
    have yc: "y \<le> of_int c" and cy: "of_int c - 1 < y"
      unfolding c_def by linarith+
    have cm: "rat_of_int c = rat_of_nat m + 1"
      using c2 by (simp add: m_def)
    from hi have "m + 1 \<le> 2 ^ k" by simp
    then have "rat_of_nat (m + 1) \<le> 2 ^ k"
      by (metis of_nat_le_iff of_nat_numeral of_nat_power)
    then have "rat_of_nat m + 1 \<le> 2 ^ k" by (simp only: of_nat_add of_nat_1)
    with yc have yk: "y \<le> 2 ^ k" by (simp only: cm)
    from lo have "(2::rat) ^ (k - 1) \<le> rat_of_nat m"
      by (metis of_nat_le_iff of_nat_numeral of_nat_power)
    moreover from cy have "rat_of_nat m < y" by (simp add: cm)
    ultimately have ky: "2 ^ (k - 1) < y" by (rule le_less_trans)
    have ay: "a = 1 / y" using a0 by (simp add: y_def)
    have "1 / 2 ^ k \<le> a"
      unfolding ay using yk y1 by (intro divide_left_mono) auto
    then have l: "2 powi binade x \<le> a"
      by (simp add: b power_int_minus_divide)
    have y0: "0 < y" using y1 by simp
    have "1 / y < 1 / 2 ^ (k - 1)"
      using ky y0 by (intro divide_strict_left_mono mult_pos_pos) simp_all
    then have "a < 1 / 2 ^ (k - 1)"
      by (simp only: ay)
    moreover have "(2::rat) powi (- int k + 1) = 1 / 2 ^ (k - 1)"
    proof -
      have "- int k + 1 = - int (k - 1)" using k0 by simp
      then show ?thesis by (simp only: power_int_minus_divide power_int_of_nat)
    qed
    ultimately have "a < 2 powi (binade x + 1)" by (simp add: b)
    with l show ?thesis by simp
  qed
  then show "2 powi binade x \<le> \<bar>x\<bar>" and "\<bar>x\<bar> < 2 powi (binade x + 1)"
    by (simp_all add: a_def)
qed

lemma round_even_of_int: "round_even (of_int k) = k"
  by (simp add: round_even_def)

lemma round_even_err: "\<bar>of_int (round_even m) - m\<bar> \<le> 1 / 2"
proof -
  have "of_int \<lfloor>m\<rfloor> \<le> m" "m < of_int \<lfloor>m\<rfloor> + 1" by linarith+
  then show ?thesis
    by (auto simp: round_even_def Let_def abs_le_iff)
qed

lemma round_even_le: "m \<le> of_int k \<Longrightarrow> round_even m \<le> k"
proof -
  assume mk: "m \<le> of_int k"
  have f: "\<lfloor>m\<rfloor> \<le> k" using mk by (simp add: floor_le_iff) 
  have "\<lfloor>m\<rfloor> + 1 \<le> k" if "1 / 2 \<le> m - of_int \<lfloor>m\<rfloor>"
  proof (rule ccontr)
    assume "\<not> \<lfloor>m\<rfloor> + 1 \<le> k"
    with f have "\<lfloor>m\<rfloor> = k" by simp
    with mk that show False by simp
  qed
  with f show ?thesis
    by (auto simp: round_even_def Let_def)
qed

lemma round_even_ge: "of_int k \<le> m \<Longrightarrow> k \<le> round_even m"
proof -
  assume "of_int k \<le> m"
  then have "k \<le> \<lfloor>m\<rfloor>" by (simp add: le_floor_iff)
  then show ?thesis
    by (auto simp: round_even_def Let_def)
qed

lemma fl_eq:
  "x \<noteq> 0 \<Longrightarrow>
   fl x = of_int (round_even (x * 2 powi (52 - binade x))) * 2 powi (binade x - 52)"
  by (simp add: fl_def Let_def scale_powi)

lemma fl_0: "fl 0 = 0"
  by (simp add: fl_def)

lemma powi_cancel: "(2::rat) powi a * 2 powi (- a) = 1"
  by (simp add: power_int_minus field_simps)

lemma fl_error: "\<bar>fl x - x\<bar> \<le> \<bar>x\<bar> * 2 powi (- 53)"
proof (cases "x = 0")
  case True
  then show ?thesis by (simp add: fl_0)
next
  case False
  define e where "e = binade x - 52"
  define m where "m = x * 2 powi (- e)"
  define r where "r = round_even m"
  have flx: "fl x = of_int r * 2 powi e"
    using fl_eq [OF False] by (simp add: e_def m_def r_def)
  have xm: "x = m * 2 powi e"
    by (simp add: m_def power_int_minus field_simps)
  have "fl x - x = (of_int r - m) * 2 powi e"
    by (simp add: flx) (simp add: xm algebra_simps)
  then have "\<bar>fl x - x\<bar> = \<bar>of_int r - m\<bar> * 2 powi e"
    by (simp add: abs_mult)
  also have "\<dots> \<le> 1 / 2 * 2 powi e"
    using round_even_err [of m] by (intro mult_right_mono) (simp_all add: r_def)
  also have "\<dots> = 2 powi binade x * 2 powi (- 53)"
    by (simp add: e_def power_int_diff)
  also have "\<dots> \<le> \<bar>x\<bar> * 2 powi (- 53)"
    using binade_bounds(1) [OF False] by (intro mult_right_mono) simp_all
  finally show ?thesis .
qed

lemma binade_le_52:
  assumes "0 < x" and "x < 2 ^ 53"
  shows "binade x \<le> 52"
proof (rule ccontr)
  assume "\<not> binade x \<le> 52"
  then have "53 \<le> binade x" by simp
  then have "(2::rat) powi 53 \<le> 2 powi binade x"
    by (intro power_int_increasing) simp_all
  with binade_bounds(1) [of x] assms show False by simp
qed

lemma fl_le_int:
  assumes "0 < x" and "x \<le> of_int k" and "x < 2 ^ 53"
  shows "fl x \<le> of_int k"
proof -
  define j where "j = nat (52 - binade x)"
  have j: "52 - binade x = int j"
    using binade_le_52 [OF assms(1,3)] by (simp add: j_def)
  have x0: "x \<noteq> 0" using assms(1) by simp
  have "x * 2 ^ j \<le> of_int k * 2 ^ j"
    using assms(2) by (intro mult_right_mono) simp_all
  then have "x * 2 ^ j \<le> rat_of_int (k * 2 ^ j)" by simp
  from round_even_le [OF this] have "round_even (x * 2 ^ j) \<le> k * 2 ^ j" .
  then have r: "rat_of_int (round_even (x * 2 ^ j)) \<le> rat_of_int k * 2 ^ j"
    by (metis of_int_le_iff of_int_mult of_int_numeral of_int_power)
  have p: "(2::rat) ^ j * 2 powi (- int j) = 1"
    by (simp add: power_int_minus)
  have "binade x - 52 = - int j" using j by simp
  with fl_eq [OF x0] j
  have "fl x = rat_of_int (round_even (x * 2 ^ j)) * 2 powi (- int j)" by simp
  also have "\<dots> \<le> (rat_of_int k * 2 ^ j) * 2 powi (- int j)"
    using r by (intro mult_right_mono) simp_all
  also have "\<dots> = rat_of_int k"
    using p by (simp add: mult.assoc)
  finally show ?thesis .
qed

lemma fl_ge_int:
  assumes "0 < x" and "of_int k \<le> x" and "x < 2 ^ 53"
  shows "of_int k \<le> fl x"
proof -
  define j where "j = nat (52 - binade x)"
  have j: "52 - binade x = int j"
    using binade_le_52 [OF assms(1,3)] by (simp add: j_def)
  have x0: "x \<noteq> 0" using assms(1) by simp
  have "of_int k * 2 ^ j \<le> x * 2 ^ j"
    using assms(2) by (intro mult_right_mono) simp_all
  then have "rat_of_int (k * 2 ^ j) \<le> x * 2 ^ j" by simp
  from round_even_ge [OF this] have "k * 2 ^ j \<le> round_even (x * 2 ^ j)" .
  then have r: "rat_of_int k * 2 ^ j \<le> rat_of_int (round_even (x * 2 ^ j))"
    by (metis of_int_le_iff of_int_mult of_int_numeral of_int_power)
  have p: "(2::rat) ^ j * 2 powi (- int j) = 1"
    by (simp add: power_int_minus)
  have "binade x - 52 = - int j" using j by simp
  with fl_eq [OF x0] j
  have f: "fl x = rat_of_int (round_even (x * 2 ^ j)) * 2 powi (- int j)" by simp
  have "rat_of_int k = (rat_of_int k * 2 ^ j) * 2 powi (- int j)"
    using p by (simp add: mult.assoc)
  also have "\<dots> \<le> rat_of_int (round_even (x * 2 ^ j)) * 2 powi (- int j)"
    using r by (intro mult_right_mono) simp_all
  finally show ?thesis by (simp add: f)
qed

lemma fl_nat_exact: "n < 2 ^ 53 \<Longrightarrow> fl (of_nat n) = of_nat n"
proof (cases "n = 0")
  case True
  then show ?thesis by (simp add: fl_0)
next
  case False
  assume "n < 2 ^ 53"
  then have "rat_of_nat n < rat_of_nat (2 ^ 53)" by (simp only: of_nat_less_iff)
  then have lt: "rat_of_nat n < 2 ^ 53" by simp
  from False have pos: "0 < rat_of_nat n" by simp
  have "fl (rat_of_nat n) \<le> rat_of_int (int n)"
    by (rule fl_le_int [OF pos _ lt]) simp
  moreover have "rat_of_int (int n) \<le> fl (rat_of_nat n)"
    by (rule fl_ge_int [OF pos _ lt]) simp
  ultimately show ?thesis by simp
qed

lemma fl_pos: "0 < x \<Longrightarrow> x < 2 ^ 53 \<Longrightarrow> 0 \<le> fl x"
  using fl_ge_int [of x 0] by simp

section \<open>The sums and percentages of \<open>getCpuUsage\<close>\<close>

lemma foldl_ticks_exact:
  "a + ticks f cs < 2 ^ 53 \<Longrightarrow>
   foldl (\<lambda>acc cpu. js_add acc (tick (f cpu))) (Num (of_nat a)) cs = Num (of_nat (a + ticks f cs))"
proof (induction cs arbitrary: a)
  case Nil
  then show ?case by (simp add: ticks_def)
next
  case (Cons c cs)
  from Cons.prems have lt: "a + f c < 2 ^ 53" and lt': "(a + f c) + ticks f cs < 2 ^ 53"
    by (simp_all add: ticks_def)
  have "js_add (Num (of_nat a)) (tick (f c)) = Num (of_nat (a + f c))"
    using fl_nat_exact [OF lt] by (simp add: tick_def)
  with Cons.IH [OF lt'] show ?case
    by (simp add: ticks_def add.assoc)
qed

lemma sum_ticks_exact: "ticks f cs < 2 ^ 53 \<Longrightarrow> sum_ticks f cs = Num (of_nat (ticks f cs))"
  using foldl_ticks_exact [of 0 f cs] by (simp add: sum_ticks_def)

lemma js_add_nat_exact:
  "a + b < 2 ^ 53 \<Longrightarrow> js_add (Num (of_nat a)) (Num (of_nat b)) = Num (of_nat (a + b))"
  using fl_nat_exact [of "a + b"] by simp

lemma getCpuUsage_exact:
  assumes "ticks_total cs < 2 ^ 53"
  shows "getCpuUsage cs =
     \<lparr>user = toFixed 2 (percent (Num (of_nat (ticks cpu_times.user cs))) (Num (of_nat (ticks_total cs)))),
      system = toFixed 2 (percent (Num (of_nat (ticks sys cs))) (Num (of_nat (ticks_total cs)))),
      idle = toFixed 2 (percent (Num (of_nat (ticks cpu_times.idle cs))) (Num (of_nat (ticks_total cs)))),
      total = Num (of_nat (ticks_total cs))\<rparr>"
proof -
  let ?u = "ticks cpu_times.user cs" and ?n = "ticks nice cs" and ?s = "ticks sys cs"
  let ?i = "ticks cpu_times.idle cs" and ?q = "ticks irq cs"
  from assms have b: "?u < 2 ^ 53" "?n < 2 ^ 53" "?s < 2 ^ 53" "?i < 2 ^ 53" "?q < 2 ^ 53"
    "?u + ?n < 2 ^ 53" "?u + ?n + ?s < 2 ^ 53" "?u + ?n + ?s + ?i < 2 ^ 53"
    "?u + ?n + ?s + ?i + ?q < 2 ^ 53"
    by (simp_all add: ticks_total_def)
  have t: "js_add (js_add (js_add (js_add (Num (of_nat ?u)) (Num (of_nat ?n))) (Num (of_nat ?s)))
              (Num (of_nat ?i))) (Num (of_nat ?q)) = Num (of_nat (ticks_total cs))"
    by (simp only: js_add_nat_exact b ticks_total_def)
  show ?thesis
    by (simp only: getCpuUsage_def Let_def sum_ticks_exact b t)
qed

lemma percent_zero_total: "percent (Num 0) (Num 0) = NaN"
  by (simp add: percent_def)

lemma getCpuUsage_zero:
  assumes "ticks_total cs = 0"
  shows "getCpuUsage cs = \<lparr>user = js ''NaN'', system = js ''NaN'', idle = js ''NaN'', total = Num 0\<rparr>"
proof -
  from assms have z: "ticks cpu_times.user cs = 0" "ticks sys cs = 0" "ticks cpu_times.idle cs = 0"
    by (simp_all add: ticks_total_def)
  have "ticks_total cs < 2 ^ 53" using assms by simp
  from getCpuUsage_exact [OF this] show ?thesis
    by (simp add: assms z percent_zero_total toFixed_def)
qed

lemma percent_bounds:
  assumes "u \<le> t" and "0 < t"
  shows "\<exists>r. percent (Num (of_nat u)) (Num (of_nat t)) = Num r \<and> 0 \<le> r \<and> r \<le> 100
            \<and> \<bar>r - 100 * of_nat u / of_nat t\<bar> \<le> 200 * 2 powi (- 53)"
proof -
  define x :: rat where "x = of_nat u / of_nat t"
  define q where "q = fl x"
  define r where "r = fl (q * 100)"
  have t0: "(0::rat) < of_nat t" using assms(2) by simp
  have x0: "0 \<le> x" and x1: "x \<le> 1"
    using assms t0 by (simp_all add: x_def)
  have p: "percent (Num (of_nat u)) (Num (of_nat t)) = Num r"
    using assms(2) by (simp add: percent_def r_def q_def x_def)
  have qb: "0 \<le> q \<and> q \<le> 1 \<and> \<bar>q - x\<bar> \<le> 2 powi (- 53)"
  proof (cases "x = 0")
    case True
    then show ?thesis by (simp add: q_def fl_0)
  next
    case False
    with x0 have xp: "0 < x" by simp
    have lt: "x < 2 ^ 53" using x1 by simp
    have "rat_of_int 0 \<le> fl x" by (rule fl_ge_int [OF xp _ lt]) (simp add: x0)
    moreover have "fl x \<le> rat_of_int 1" by (rule fl_le_int [OF xp _ lt]) (simp add: x1)
    moreover have "\<bar>fl x - x\<bar> \<le> \<bar>x\<bar> * 2 powi (- 53)" by (rule fl_error)
    moreover have "\<bar>x\<bar> * 2 powi (- 53) \<le> 1 * 2 powi (- 53)"
      using x0 x1 by (intro mult_right_mono) simp_all
    ultimately show ?thesis by (simp add: q_def)
  qed
  have rb: "0 \<le> r \<and> r \<le> 100 \<and> \<bar>r - q * 100\<bar> \<le> 100 * 2 powi (- 53)"
  proof (cases "q = 0")
    case True
    then show ?thesis by (simp add: r_def fl_0)
  next
    case False
    with qb have yp: "0 < q * 100" by simp
    have y100: "q * 100 \<le> 100" using qb by simp
    have lt: "q * 100 < 2 ^ 53" using y100 by simp
    have "rat_of_int 0 \<le> fl (q * 100)" by (rule fl_ge_int [OF yp _ lt]) (use yp in simp)
    moreover have "fl (q * 100) \<le> rat_of_int 100" by (rule fl_le_int [OF yp _ lt]) (use y100 in simp)
    moreover have "\<bar>fl (q * 100) - q * 100\<bar> \<le> \<bar>q * 100\<bar> * 2 powi (- 53)" by (rule fl_error)
    moreover have "\<bar>q * 100\<bar> * 2 powi (- 53) \<le> 100 * 2 powi (- 53)"
      using yp y100 by (intro mult_right_mono) simp_all
    ultimately show ?thesis by (simp add: r_def)
  qed
  have "\<bar>r - 100 * x\<bar> \<le> \<bar>r - q * 100\<bar> + 100 * \<bar>q - x\<bar>"
    by (simp add: abs_le_iff) (auto simp: abs_if split: if_splits)
  also have "\<dots> \<le> 100 * 2 powi (- 53) + 100 * 2 powi (- 53)"
    using qb rb by (intro add_mono) simp_all
  finally have "\<bar>r - 100 * x\<bar> \<le> 200 * 2 powi (- 53)" by simp
  with p rb show ?thesis
    by (auto simp: x_def)
qed

section \<open>Values that are not rounded\<close>

lemma binade_unique:
  assumes "x \<noteq> 0" and "2 powi e \<le> \<bar>x\<bar>" and "\<bar>x\<bar> < 2 powi (e + 1)"
  shows "binade x = e"
proof -
  have "binade x < e + 1"
  proof (rule ccontr)
    assume "\<not> binade x < e + 1"
    then have "(2::rat) powi (e + 1) \<le> 2 powi binade x"
      by (intro power_int_increasing) simp_all
    with binade_bounds(1) [OF assms(1)] assms(3) show False by simp
  qed
  moreover have "e < binade x + 1"
  proof (rule ccontr)
    assume "\<not> e < binade x + 1"
    then have "(2::rat) powi (binade x + 1) \<le> 2 powi e"
      by (intro power_int_increasing) simp_all
    with binade_bounds(2) [OF assms(1)] assms(2) show False by simp
  qed
  ultimately show ?thesis by simp
qed

lemma p2_add: "(2::rat) powi (a + b) = 2 powi a * 2 powi b"
  by (simp add: power_int_add)

lemma binade_scale: "x \<noteq> 0 \<Longrightarrow> binade (x * 2 powi j) = binade x + j"
proof (rule binade_unique)
  assume x: "x \<noteq> 0"
  then show "x * 2 powi j \<noteq> 0" by simp
  have "2 powi binade x * 2 powi j \<le> \<bar>x\<bar> * 2 powi j"
    using binade_bounds(1) [OF x] by (intro mult_right_mono) simp_all
  then show "2 powi (binade x + j) \<le> \<bar>x * 2 powi j\<bar>"
    by (simp add: power_int_add abs_mult)
  have "\<bar>x\<bar> * 2 powi j < 2 powi (binade x + 1) * 2 powi j"
    using binade_bounds(2) [OF x] by (intro mult_strict_right_mono) simp_all
  then show "\<bar>x * 2 powi j\<bar> < 2 powi (binade x + j + 1)"
    by (simp add: power_int_add abs_mult mult.commute mult.left_commute)
qed

lemma fl_scale: "fl (x * 2 powi j) = fl x * 2 powi j"
proof (cases "x = 0")
  case True
  then show ?thesis by (simp add: fl_0)
next
  case False
  then have nz: "x * 2 powi j \<noteq> 0" by simp
  have m: "x * (2 powi j * 2 powi (52 - (binade x + j))) = x * 2 powi (52 - binade x)"
  proof -
    have "(2::rat) powi (52 - binade x) = 2 powi j * 2 powi (52 - (binade x + j))"
      using p2_add [of j "52 - (binade x + j)"] by simp
    then show ?thesis by simp
  qed
  have e: "(2::rat) powi (binade x + j - 52) = 2 powi (binade x - 52) * 2 powi j"
    using p2_add [of "binade x - 52" j] by (simp add: algebra_simps)
  show ?thesis
    by (simp only: fl_eq [OF nz] fl_eq [OF False] binade_scale [OF False] m e mult.assoc)
qed

lemma fl_dyadic: "n < 2 ^ 53 \<Longrightarrow> fl (of_nat n * 2 powi j) = of_nat n * 2 powi j"
  by (simp add: fl_scale fl_nat_exact)

lemma floor_numeral_div_rat: "\<lfloor>(numeral a :: rat) / numeral b\<rfloor> = numeral a div numeral b"
  by (metis floor_divide_of_int_eq of_int_numeral)

lemma percent_2_32768: "percent (Num 2) (Num 32768) = Num (25 / 4096)"
proof -
  have a: "fl (1 / 16384) = 1 / 16384"
    using fl_dyadic [of 1 "- 14"] by simp
  have b: "fl (25 / 4096) = 25 / 4096"
    using fl_dyadic [of 25 "- 12"] by simp
  show ?thesis by (simp add: percent_def a b)
qed

lemma percent_32764_32768: "percent (Num 32764) (Num 32768) = Num (204775 / 2048)"
proof -
  have a: "fl (8191 / 8192) = 8191 / 8192"
    using fl_dyadic [of 8191 "- 13"] by simp
  have b: "fl (204775 / 2048) = 204775 / 2048"
    using fl_dyadic [of 204775 "- 11"] by simp
  show ?thesis by (simp add: percent_def a b)
qed

lemma toFixed_25_4096: "toFixed 2 (Num (25 / 4096)) = js ''0.01''"
  by (simp add: toFixed_def fixed_scaled_def fixed_digits_def digits.simps Let_def js_def
      floor_numeral_div_rat)

lemma toFixed_204775_2048: "toFixed 2 (Num (204775 / 2048)) = js ''99.99''"
  by (simp add: toFixed_def fixed_scaled_def fixed_digits_def digits.simps Let_def js_def
      floor_numeral_div_rat)

section \<open>The published percentages\<close>

lemma dot_in_fixed_digits: "0 < f \<Longrightarrow> 0x2E \<in> set (fixed_digits f n)"
  by (simp add: fixed_digits_def Let_def)

lemma toFixed_Num_not_NaN: "0 < f \<Longrightarrow> toFixed f (Num r) \<noteq> js ''NaN''"
proof
  assume f: "0 < f" and eq: "toFixed f (Num r) = js ''NaN''"
  have "0x2E \<in> set (toFixed f (Num r))"
    using dot_in_fixed_digits [OF f] by (simp add: toFixed_def)
  with eq show False by (simp add: js_def)
qed

lemma round_half_err:
  assumes "0 \<le> (x::rat)"
  shows "\<bar>rat_of_nat (nat \<lfloor>x + 1 / 2\<rfloor>) - x\<bar> \<le> 1 / 2"
proof -
  define k where "k = \<lfloor>x + 1 / 2\<rfloor>"
  have "0 \<le> k" using assms by (simp add: k_def)
  then have eq: "rat_of_nat (nat k) = rat_of_int k" by simp
  have "rat_of_int k \<le> x + 1 / 2" "x + 1 / 2 < rat_of_int k + 1"
    unfolding k_def by linarith+
  then have "\<bar>rat_of_int k - x\<bar> \<le> 1 / 2" by linarith
  then show ?thesis by (simp only: eq k_def [symmetric])
qed

lemma toFixed2_percent:
  assumes "u \<le> t" and "0 < t"
  shows "\<exists>n. toFixed 2 (percent (Num (of_nat u)) (Num (of_nat t))) = fixed_digits 2 n
            \<and> n \<le> 10000
            \<and> \<bar>rat_of_nat n - 10000 * of_nat u / of_nat t\<bar> \<le> 1 / 2 + 1 / 2 ^ 38"
proof -
  from percent_bounds [OF assms] obtain r where
    p: "percent (Num (of_nat u)) (Num (of_nat t)) = Num r" and r0: "0 \<le> r" and r100: "r \<le> 100"
    and e: "\<bar>r - 100 * of_nat u / of_nat t\<bar> \<le> 200 * 2 powi (- 53)"
    by blast
  define n where "n = fixed_scaled 2 r"
  have n: "n = nat \<lfloor>r * 100 + 1 / 2\<rfloor>"
    using r0 by (simp add: n_def fixed_scaled_def)
  have s: "toFixed 2 (percent (Num (of_nat u)) (Num (of_nat t))) = fixed_digits 2 n"
    using r0 by (simp add: p toFixed_def n_def)
  define k where "k = \<lfloor>r * 100 + 1 / 2\<rfloor>"
  have "r * 100 + 1 / 2 < 10001" using r100 by simp
  then have "k < 10001" by (simp add: k_def floor_less_iff)
  then have "nat k \<le> 10000" by simp
  then have le: "n \<le> 10000" by (simp only: n k_def)
  have h: "\<bar>rat_of_nat n - r * 100\<bar> \<le> 1 / 2"
    unfolding n using r0 by (intro round_half_err) simp
  define X :: rat where "X = 100 * of_nat u / of_nat t"
  have X: "10000 * rat_of_nat u / rat_of_nat t = 100 * X"
    by (simp add: X_def)
  from e have e': "\<bar>r - X\<bar> \<le> 200 * 2 powi (- 53)"
    by (simp only: X_def)
  have "rat_of_nat n - 100 * X = (rat_of_nat n - r * 100) + 100 * (r - X)"
    by (simp add: algebra_simps)
  then have "\<bar>rat_of_nat n - 100 * X\<bar> \<le> \<bar>rat_of_nat n - r * 100\<bar> + \<bar>100 * (r - X)\<bar>"
    by (simp only: abs_triangle_ineq)
  also have "\<dots> = \<bar>rat_of_nat n - r * 100\<bar> + 100 * \<bar>r - X\<bar>"
    by (simp only: abs_mult abs_numeral)
  also have "\<dots> \<le> 1 / 2 + 100 * (200 * 2 powi (- 53))"
    using h e' by (intro add_mono mult_left_mono) simp_all
  also have "\<dots> \<le> 1 / 2 + 1 / 2 ^ 38" by simp
  finally have "\<bar>rat_of_nat n - 10000 * of_nat u / of_nat t\<bar> \<le> 1 / 2 + 1 / 2 ^ 38"
    by (simp only: X)
  then show ?thesis using s le by blast
qed

lemma ticks_le_total:
  "ticks cpu_times.user cs \<le> ticks_total cs" "ticks sys cs \<le> ticks_total cs"
  "ticks cpu_times.idle cs \<le> ticks_total cs"
  "ticks cpu_times.user cs + ticks sys cs + ticks cpu_times.idle cs \<le> ticks_total cs"
  by (simp_all add: ticks_total_def)

lemma ticks_snapshot_rounding:
  "ticks cpu_times.user snapshot_rounding = 2" "ticks sys snapshot_rounding = 2"
  "ticks cpu_times.idle snapshot_rounding = 32764" "ticks_total snapshot_rounding = 32768"
  by (simp_all add: ticks_total_def ticks_def snapshot_rounding_def)


section \<open>The elapsed time\<close>

lemma hrtime_since_delta:
  assumes "t0 \<le> t1"
  shows "hrtime_since (hrtime t0) t1 = (int ((t1 - t0) div 10 ^ 9), int ((t1 - t0) mod 10 ^ 9))"
proof -
  define B :: int where "B = 10 ^ 9"
  define s0 where "s0 = int t0 div B"
  define n0 where "n0 = int t0 mod B"
  define s1 where "s1 = int t1 div B"
  define n1 where "n1 = int t1 mod B"
  have B0: "0 < B" by (simp add: B_def)
  have r0: "0 \<le> n0" "n0 < B" and r1: "0 \<le> n1" "n1 < B"
    using B0 by (simp_all add: n0_def n1_def)
  have e0: "int t0 = B * s0 + n0" and e1: "int t1 = B * s1 + n1"
    by (simp_all add: s0_def n0_def s1_def n1_def)
  define d where "d = int (t1 - t0)"
  have d: "d = int t1 - int t0" using assms by (simp add: d_def)
  have h: "hrtime_since (hrtime t0) t1
             = (if n1 - n0 < 0 then (s1 - s0 - 1, n1 - n0 + B) else (s1 - s0, n1 - n0))"
    by (simp add: hrtime_since_def hrtime_def Let_def s0_def n0_def s1_def n1_def B_def
        zdiv_int zmod_int)
  have dm: "int ((t1 - t0) div 10 ^ 9) = d div B" "int ((t1 - t0) mod 10 ^ 9) = d mod B"
    by (simp_all add: d_def B_def zdiv_int zmod_int)
  show ?thesis
  proof (cases "n1 - n0 < 0")
    case True
    have eq: "d = B * (s1 - s0 - 1) + (n1 - n0 + B)"
      by (simp add: d e0 e1 algebra_simps)
    have lo: "0 \<le> n1 - n0 + B" and hi: "n1 - n0 + B < B"
      using True r0 r1 by simp_all
    have q: "d div B = s1 - s0 - 1" and m: "d mod B = n1 - n0 + B"
      by (rule int_div_pos_eq [OF eq lo hi], rule int_mod_pos_eq [OF eq lo hi])
    show ?thesis unfolding h dm q m using True by simp
  next
    case False
    have eq: "d = B * (s1 - s0) + (n1 - n0)"
      by (simp add: d e0 e1 algebra_simps)
    have lo: "0 \<le> n1 - n0" and hi: "n1 - n0 < B"
      using False r0 r1 by simp_all
    have q: "d div B = s1 - s0" and m: "d mod B = n1 - n0"
      by (rule int_div_pos_eq [OF eq lo hi], rule int_mod_pos_eq [OF eq lo hi])
    show ?thesis unfolding h dm q m using False by simp
  qed
qed

lemma fl_nonneg: "0 \<le> x \<Longrightarrow> x < 2 ^ 53 \<Longrightarrow> 0 \<le> fl x"
  using fl_ge_int [of x 0] by (cases "x = 0") (simp_all add: fl_0)

lemma elapsed_ms_error:
  assumes "d < 9 * 10 ^ 15"
  shows "\<exists>x. elapsedTimeInMs (int (d div 10 ^ 9), int (d mod 10 ^ 9)) = Num x \<and> 0 \<le> x
            \<and> \<bar>x - of_nat d / 10 ^ 6\<bar> < 1 / 10 ^ 6"
proof -
  define s where "s = d div 10 ^ 9"
  define n where "n = d mod 10 ^ 9"
  define S :: rat where "S = of_nat (s * 1000)"
  define N :: rat where "N = of_nat n / 10 ^ 6"
  define b where "b = fl N"
  define x where "x = fl (S + b)"
  have dsn: "d = s * 10 ^ 9 + n" by (simp add: s_def n_def)
  have s_lt: "s < 9 * 10 ^ 6"
    using assms by (simp add: s_def less_mult_imp_div_less)
  have n_lt: "n < 10 ^ 9" by (simp add: n_def)
  have "s * 1000 < 2 ^ 53" using s_lt by simp
  then have fS: "fl S = S" unfolding S_def by (rule fl_nat_exact)
  have e: "elapsedTimeInMs (int (d div 10 ^ 9), int (d mod 10 ^ 9)) = Num x"
    using fS by (simp add: elapsedTimeInMs_def x_def b_def N_def S_def s_def n_def)
  have S0: "0 \<le> S" and Sle: "S \<le> 9 * 10 ^ 9"
  proof -
    show "0 \<le> S" by (simp add: S_def)
    have "s * 1000 \<le> 9 * 10 ^ 9" using s_lt by simp
    then have "rat_of_nat (s * 1000) \<le> rat_of_nat (9 * 10 ^ 9)" by (simp only: of_nat_le_iff)
    then show "S \<le> 9 * 10 ^ 9" by (simp add: S_def)
  qed
  have N0: "0 \<le> N" and Nle: "N \<le> 1000"
  proof -
    show "0 \<le> N" by (simp add: N_def)
    have "rat_of_nat n \<le> rat_of_nat (10 ^ 9)" using n_lt by (simp only: of_nat_le_iff)
    then show "N \<le> 1000" by (simp add: N_def)
  qed
  have E: "rat_of_nat d / 10 ^ 6 = S + N"
    by (simp add: dsn S_def N_def field_simps)
  define eps :: rat where "eps = 2 powi (- 53)"
  have eps: "0 < eps" "eps * (9 * 10 ^ 9 + 2001) < 1 / 10 ^ 6"
    by (simp_all add: eps_def)
  have bN: "\<bar>b - N\<bar> \<le> 1000 * eps"
  proof -
    have "\<bar>fl N - N\<bar> \<le> \<bar>N\<bar> * eps" unfolding eps_def by (rule fl_error)
    also have "\<dots> \<le> 1000 * eps" using N0 Nle eps(1) by (intro mult_right_mono) simp_all
    finally show ?thesis by (simp add: b_def)
  qed
  have b0: "0 \<le> b" unfolding b_def using N0 Nle by (intro fl_nonneg) simp_all
  have eps1: "1000 * eps \<le> 1" by (simp add: eps_def)
  have ble: "b \<le> 1001" using bN Nle eps1 by linarith
  have sb0: "0 \<le> S + b" and sble: "S + b \<le> 9 * 10 ^ 9 + 1001"
    using S0 b0 Sle ble by simp_all
  have x0: "0 \<le> x" unfolding x_def using sb0 sble by (intro fl_nonneg) simp_all
  have xs: "\<bar>x - (S + b)\<bar> \<le> (9 * 10 ^ 9 + 1001) * eps"
  proof -
    have "\<bar>fl (S + b) - (S + b)\<bar> \<le> \<bar>S + b\<bar> * eps" unfolding eps_def by (rule fl_error)
    also have "\<dots> \<le> (9 * 10 ^ 9 + 1001) * eps"
      using sb0 sble eps(1) by (intro mult_right_mono) simp_all
    finally show ?thesis by (simp add: x_def)
  qed
  have "\<bar>x - (S + N)\<bar> \<le> \<bar>x - (S + b)\<bar> + \<bar>b - N\<bar>" by linarith
  also have "\<dots> \<le> (9 * 10 ^ 9 + 1001) * eps + 1000 * eps"
    using xs bN by (rule add_mono)
  also have "\<dots> = eps * (9 * 10 ^ 9 + 2001)" by (simp add: algebra_simps)
  also have "\<dots> < 1 / 10 ^ 6" by (rule eps(2))
  finally have "\<bar>x - rat_of_nat d / 10 ^ 6\<bar> < 1 / 10 ^ 6" by (simp only: E)
  with e x0 show ?thesis by blast
qed

lemma round_thousandths:
  assumes "0 \<le> x" and "\<bar>x - of_nat d / 10 ^ 6\<bar> < 1 / 10 ^ 6"
  shows "(d mod 1000 < 500 \<longrightarrow> fixed_scaled 3 x = d div 1000)
       \<and> (500 < d mod 1000 \<longrightarrow> fixed_scaled 3 x = d div 1000 + 1)
       \<and> (d mod 1000 = 500 \<longrightarrow> fixed_scaled 3 x = d div 1000 \<or> fixed_scaled 3 x = d div 1000 + 1)"
proof -
  define y where "y = x * 1000"
  define k where "k = \<lfloor>y + 1 / 2\<rfloor>"
  define D where "D = d div 1000"
  define r where "r = d mod 1000"
  define K where "K = rat_of_int k"
  define DD where "DD = rat_of_nat D"
  define R where "R = rat_of_nat r"
  have y0: "0 \<le> y" using assms(1) by (simp add: y_def)
  then have k0: "0 \<le> k" by (simp add: k_def)
  have n: "fixed_scaled 3 x = nat k"
    using assms(1) by (simp add: fixed_scaled_def k_def y_def)
  have kb: "K \<le> y + 1 / 2" "y + 1 / 2 < K + 1"
    unfolding K_def k_def by linarith+
  have "d = 1000 * D + r" by (simp add: D_def r_def)
  then have "rat_of_nat d = rat_of_nat (1000 * D + r)" by simp
  then have dd: "rat_of_nat d = 1000 * DD + R" by (simp add: DD_def R_def)
  define z where "z = x - of_nat d / 10 ^ 6"
  have z: "\<bar>z\<bar> < 1 / 10 ^ 6" using assms(2) by (simp only: z_def)
  have "y - (DD + R / 1000) = 1000 * z"
    by (simp add: z_def dd y_def field_simps)
  then have "\<bar>y - (DD + R / 1000)\<bar> = 1000 * \<bar>z\<bar>"
    by (simp only: abs_mult abs_numeral)
  also have "\<dots> < 1 / 1000" using z by simp
  finally have yb: "\<bar>y - (DD + R / 1000)\<bar> < 1 / 1000" .
  have conv: "a < int D + 1 \<longleftrightarrow> rat_of_int a < DD + 1" "int D < a + 1 \<longleftrightarrow> DD < rat_of_int a + 1" 
    "a < int D + 2 \<longleftrightarrow> rat_of_int a < DD + 2" "int D + 1 < a + 1 \<longleftrightarrow> DD + 1 < rat_of_int a + 1" for a
  proof -
    have "rat_of_int (int D) = DD" by (simp add: DD_def)
    then show "a < int D + 1 \<longleftrightarrow> rat_of_int a < DD + 1" "int D < a + 1 \<longleftrightarrow> DD < rat_of_int a + 1"
      "a < int D + 2 \<longleftrightarrow> rat_of_int a < DD + 2" "int D + 1 < a + 1 \<longleftrightarrow> DD + 1 < rat_of_int a + 1"
      by (metis of_int_less_iff of_int_add of_int_1 of_int_numeral)+
  qed
  have lo: "r < 500 \<Longrightarrow> k = int D"
  proof -
    assume "r < 500"
    then have "r \<le> 499" by simp
    then have "rat_of_nat r \<le> rat_of_nat 499" by (simp only: of_nat_le_iff)
    then have R: "R \<le> 499" by (simp add: R_def)
    have R0: "0 \<le> R" by (simp add: R_def)
    from kb yb R R0 have "K < DD + 1" "DD < K + 1" by linarith+
    then have "k < int D + 1" "int D < k + 1" by (simp_all only: conv K_def [symmetric])
    then show "k = int D" by simp
  qed
  have hi: "500 < r \<Longrightarrow> k = int D + 1"
  proof -
    assume "500 < r"
    then have "501 \<le> r" by simp
    then have "rat_of_nat 501 \<le> rat_of_nat r" by (simp only: of_nat_le_iff)
    then have R: "501 \<le> R" by (simp add: R_def)
    have "r < 1000" by (simp add: r_def)
    then have "r \<le> 999" by simp
    then have "rat_of_nat r \<le> rat_of_nat 999" by (simp only: of_nat_le_iff)
    then have R9: "R \<le> 999" by (simp add: R_def)
    from kb yb R R9 have "K < DD + 2" "DD + 1 < K + 1" by linarith+
    then have "k < int D + 2" "int D + 1 < k + 1" by (simp_all only: conv K_def [symmetric])
    then show "k = int D + 1" by simp
  qed
  have mid: "r = 500 \<Longrightarrow> k = int D \<or> k = int D + 1"
  proof -
    assume "r = 500"
    then have R: "R = 500" by (simp add: R_def)
    from kb yb R have "K < DD + 2" "DD < K + 1" by linarith+
    then have "k < int D + 2" "int D < k + 1" by (simp_all only: conv K_def [symmetric])
    then show "k = int D \<or> k = int D + 1" by linarith
  qed
  have "nat k = D" if "k = int D" using that by simp
  moreover have "nat k = D + 1" if "k = int D + 1" using that by simp
  ultimately show ?thesis
    using lo hi mid unfolding n D_def [symmetric] r_def [symmetric] by blast
qed


section \<open>The inverse cipher undoes the cipher\<close>

lemma sbox_inv_all:
  "list_all (\<lambda>n. inv_sbox_table ! unat (sbox_table ! n) = (of_nat n :: 8 word)) [0..<256]"
  by code_simp

lemma sbox_inverse: "inv_sbox (sbox b) = b"
proof -
  have "unat b < 2 ^ LENGTH(8)" by (rule unsigned_less)
  then have "unat b \<in> set [0..<256]" by simp
  with sbox_inv_all have "inv_sbox_table ! unat (sbox_table ! unat b) = of_nat (unat b)"
    unfolding list_all_iff by blast
  then show ?thesis by (simp add: inv_sbox_def sbox_def)
qed

lemma inv_sub_bytes: "inv_sub_bytes (sub_bytes s) = s"
proof (cases s rule: prod_cases4)
  case (fields p q r t)
  have c: "map_col inv_sbox (map_col sbox c) = c" for c
    by (cases c rule: prod_cases4) (simp add: sbox_inverse)
  show ?thesis by (simp add: fields inv_sub_bytes_def sub_bytes_def c)
qed

lemma inv_shift_rows: "inv_shift_rows (shift_rows s) = s"
proof (cases s rule: prod_cases4)
  case (fields p q r t)
  show ?thesis
    by (cases p rule: prod_cases4; cases q rule: prod_cases4; cases r rule: prod_cases4;
        cases t rule: prod_cases4) (simp add: fields)
qed

lemma xor_cancel: "x XOR (x XOR y) = (y :: byte)"
  by (metis xor.assoc xor_self_eq xor.left_neutral)

lemma xtime_xor: "xtime (a XOR b) = xtime a XOR xtime b"
proof -
  have p: "push_bit 1 (a XOR b) = push_bit 1 a XOR push_bit 1 b"
    by (rule push_bit_xor)
  show ?thesis
    unfolding xtime_def p bit_xor_iff
    by (cases "bit a 7"; cases "bit b 7")
      (simp_all add: xor.assoc xor.commute xor.left_commute xor_cancel)
qed

lemma inv_mix_column: "inv_mix_column (mix_column c) = c"
  by (cases c rule: prod_cases4)
    (simp add: mul2_def mul3_def mul9_def mul11_def mul13_def mul14_def xtime_xor
      xor.assoc xor.commute xor.left_commute xor_cancel)

lemma inv_mix_columns: "inv_mix_columns (mix_columns s) = s"
  by (cases s rule: prod_cases4) (simp add: inv_mix_columns_def mix_columns_def inv_mix_column)

lemma xor_col_twice: "xor_col (xor_col c k) k = c"
  by (cases c rule: prod_cases4; cases k rule: prod_cases4)
    (simp add: xor.assoc)

lemma add_round_key_twice: "add_round_key k (add_round_key k s) = s"
  by (cases k rule: prod_cases4; cases s rule: prod_cases4) (simp add: xor_col_twice)

lemma inv_aes_round: "inv_aes_round k (aes_round k s) = s"
  by (simp add: inv_aes_round_def aes_round_def add_round_key_twice inv_mix_columns
      inv_shift_rows inv_sub_bytes)

lemma inv_final_round: "inv_final_round k (final_round k s) = s"
  by (simp add: inv_final_round_def final_round_def add_round_key_twice inv_shift_rows
      inv_sub_bytes)

lemma fold_inverse:
  "(\<And>r s. g r (f r s) = s) \<Longrightarrow> fold g (rev rs) (fold f rs s) = s"
  by (induction rs arbitrary: s) simp_all

lemma aes_decrypt_encrypt: "aes_decrypt w (aes_encrypt w s) = s"
proof -
  have "fold (\<lambda>r. inv_aes_round (round_key w r)) (rev [1..<14])
          (fold (\<lambda>r. aes_round (round_key w r)) [1..<14] t) = t" for t
    by (rule fold_inverse) (rule inv_aes_round)
  then show ?thesis
    by (simp only: aes_decrypt_def aes_encrypt_def inv_final_round add_round_key_twice)
qed

lemma state_of_bytes: "length bs = 16 \<Longrightarrow> state_bytes (state_of bs) = bs"
proof -
  assume "length bs = 16"
  then obtain a0 a1 a2 a3 b0 b1 b2 b3 c0 c1 c2 c3 d0 d1 d2 d3 where
    "bs = [a0, a1, a2, a3, b0, b1, b2, b3, c0, c1, c2, c3, d0, d1, d2, d3]"
    by (auto simp: length_Suc_conv eval_nat_numeral)
  then show ?thesis by (simp add: state_of_def col_of_def)
qed

lemma state_bytes_of: "state_of (state_bytes s) = s"
proof (cases s rule: prod_cases4)
  case (fields p q r t)
  show ?thesis
    by (cases p rule: prod_cases4; cases q rule: prod_cases4; cases r rule: prod_cases4;
        cases t rule: prod_cases4) (simp add: fields state_of_def col_of_def)
qed

lemma decrypt_encrypt_block: "decrypt_block w (encrypt_block w b) = state_bytes (state_of b)"
  by (simp add: decrypt_block_def encrypt_block_def state_bytes_of aes_decrypt_encrypt)

section \<open>Decryption undoes encryption\<close>

lemma length_xor_bytes: "length (xor_bytes a b) = min (length a) (length b)"
  by (simp add: xor_bytes_def)

lemma xor_bytes_twice: "length a = length b \<Longrightarrow> xor_bytes (xor_bytes a b) b = a"
proof (induction a arbitrary: b)
  case Nil
  then show ?case by (simp add: xor_bytes_def)
next
  case (Cons x a)
  then obtain y b' where b: "b = y # b'" by (cases b) auto
  with Cons.prems have "length a = length b'" by simp
  from Cons.IH [OF this] show ?case
    by (simp add: b xor_bytes_def xor.assoc)
qed

lemma decrypt_encrypt_block16:
  "length b = 16 \<Longrightarrow> decrypt_block w (encrypt_block w b) = b"
  by (simp add: decrypt_encrypt_block state_of_bytes)

lemma concat_blocks: "length bs = 16 * n \<Longrightarrow> concat (blocks bs) = bs"
proof (induction n arbitrary: bs)
  case 0
  then show ?case by (simp add: blocks_short)
next
  case (Suc n)
  define h where "h = take 16 bs"
  define t where "t = drop 16 bs"
  from Suc.prems have a: "bs = h @ t" and lh: "length h = 16" and lt: "length t = 16 * n"
    by (simp_all add: h_def t_def)
  from Suc.IH [OF lt] lh show ?case
    by (simp add: a blocks_Cons)
qed

lemma blocks_lengths: "length bs = 16 * n \<Longrightarrow> \<forall>b \<in> set (blocks bs). length b = 16"
proof (induction n arbitrary: bs)
  case 0
  then show ?case by (simp add: blocks_short)
next
  case (Suc n)
  define h where "h = take 16 bs"
  define t where "t = drop 16 bs"
  from Suc.prems have a: "bs = h @ t" and lh: "length h = 16" and lt: "length t = 16 * n"
    by (simp_all add: h_def t_def)
  from Suc.IH [OF lt] lh show ?case
    by (simp add: a blocks_Cons)
qed

lemma cbc_decrypt_encrypt:
  "length iv = 16 \<Longrightarrow> \<forall>p \<in> set ps. length p = 16 \<Longrightarrow>
   cbc_decrypt w iv (blocks (cbc_encrypt w iv ps)) = concat ps"
proof (induction ps arbitrary: iv)
  case Nil
  then show ?case by (simp add: blocks_short)
next
  case (Cons p ps)
  define c where "c = encrypt_block w (xor_bytes p iv)"
  have lc: "length c = 16" by (simp add: c_def length_encrypt_block)
  have lp: "length p = 16" using Cons.prems by simp
  have lx: "length (xor_bytes p iv) = 16"
    using lp Cons.prems(1) by (simp add: length_xor_bytes)
  have d: "decrypt_block w c = xor_bytes p iv"
    unfolding c_def by (rule decrypt_encrypt_block16 [OF lx])
  have x: "xor_bytes (xor_bytes p iv) iv = p"
    using lp Cons.prems(1) by (intro xor_bytes_twice) simp
  have ih: "cbc_decrypt w c (blocks (cbc_encrypt w c ps)) = concat ps"
    using Cons.prems(2) by (intro Cons.IH lc) simp
  show ?case
    by (simp add: Let_def c_def [symmetric] blocks_Cons [OF lc] d x ih)
qed

lemma pkcs7_blocks:
  "blocks (pkcs7_pad m)
     = blocks (take (16 * (length m div 16)) m)
       @ [drop (16 * (length m div 16)) m
            @ replicate (16 - length m mod 16) (of_nat (16 - length m mod 16))]"
proof -
  define n where "n = length m div 16"
  define a where "a = take (16 * n) m"
  define b where "b = drop (16 * n) m"
  define k where "k = 16 - length m mod 16"
  have la: "length a = 16 * n"
    by (simp add: a_def n_def)
  have l16: "length (b @ replicate k (of_nat k :: byte)) = 16"
    unfolding b_def k_def n_def by (rule length_last_block)
  have "blocks (pkcs7_pad m) = blocks (a @ (b @ replicate k (of_nat k)))"
    unfolding a_def b_def k_def n_def by (subst pkcs7_pad_split) simp
  also have "\<dots> = blocks a @ blocks ((b @ replicate k (of_nat k)) @ [])"
    using blocks_append [OF la] by simp
  also have "\<dots> = blocks a @ [b @ replicate k (of_nat k)]"
    by (simp only: blocks_Cons [OF l16]) (simp add: blocks_short)
  finally show ?thesis
    by (simp add: a_def b_def k_def n_def)
qed

lemma decipher_run:
  assumes iv: "length iv = 16"
    and u: "decipher_update \<lparr>sched = w, chain = iv, pending = []\<rparr>
              (cbc_encrypt w iv (blocks (pkcs7_pad m))) = (out1, c1)"
  shows "\<exists>out2. decipher_final c1 = Inr out2 \<and> out1 @ out2 = m"
proof -
  define n where "n = length m div 16"
  define a where "a = take (16 * n) m"
  define b where "b = drop (16 * n) m"
  define k where "k = 16 - length m mod 16"
  define lb where "lb = b @ replicate k (of_nat k :: byte)"
  define ch where "ch = cbc_chain w iv (blocks a)"
  define X where "X = cbc_encrypt w iv (blocks a)"
  define Y where "Y = encrypt_block w (xor_bytes lb ch)"
  have la: "length a = 16 * n"
    by (simp add: a_def n_def)
  have lb_len: "length b = length m mod 16"
    by (simp add: b_def n_def minus_mult_div_eq_mod mult.commute)
  have k1: "1 \<le> k" and k16: "k \<le> 16"
    by (simp_all add: k_def)
  have llb: "length lb = 16"
    using lb_len by (simp add: lb_def k_def)
  have lbl: "length (blocks a) = n"
    by (rule length_blocks [OF la])
  have lX: "length X = 16 * n"
    by (simp add: X_def length_cbc_encrypt lbl)
  have lY: "length Y = 16"
    by (simp add: Y_def length_encrypt_block)
  have lch: "length ch = 16"
  proof (cases "n = 0")
    case True
    with la iv show ?thesis by (simp add: ch_def blocks_short)
  next
    case False
    with lbl have ne: "blocks a \<noteq> []" by auto
    from cbc_encrypt_last [OF ne, of w iv] lbl
    have "ch = drop (16 * (n - 1)) X" by (simp add: ch_def X_def)
    with lX False show ?thesis by simp
  qed
  have ct: "cbc_encrypt w iv (blocks (pkcs7_pad m)) = X @ Y"
    by (simp add: pkcs7_blocks cbc_encrypt_append X_def Y_def lb_def ch_def a_def b_def k_def n_def
        Let_def)
  have nn: "(length (X @ Y) - 1) div 16 = n"
    using lX lY by simp
  from u have o1: "out1 = cbc_decrypt w iv (blocks X)"
    and s: "sched c1 = w" and p: "pending c1 = Y"
    and c: "chain c1 = (if n = 0 then iv else take 16 (drop (16 * (n - 1)) (X @ Y)))"
    unfolding ct decipher_update_def Let_def using lX nn by auto
  have o1a: "out1 = a"
    unfolding o1 X_def
    using cbc_decrypt_encrypt [OF iv blocks_lengths [OF la], of w] concat_blocks [OF la] by simp
  have chn: "chain c1 = ch"
  proof (cases "n = 0")
    case True
    with la c show ?thesis by (simp add: ch_def blocks_short)
  next
    case False
    with lbl have ne: "blocks a \<noteq> []" by auto
    from cbc_encrypt_last [OF ne, of w iv] lbl
    have e: "ch = drop (16 * (n - 1)) X" by (simp add: ch_def X_def)
    from False lX have "take 16 (drop (16 * (n - 1)) (X @ Y)) = drop (16 * (n - 1)) X"
      by simp
    with c False e show ?thesis by simp
  qed
  have lx: "length (xor_bytes lb ch) = 16"
    using llb lch by (simp add: length_xor_bytes)
  have pl: "xor_bytes (decrypt_block w Y) ch = lb"
    using decrypt_encrypt_block16 [OF lx, of w] xor_bytes_twice [of lb ch] llb lch
    by (simp add: Y_def)
  have last_lb: "last lb = of_nat k"
    using k1 by (simp add: lb_def)
  have uk: "unat (of_nat k :: byte) = k"
    using k16 by (simp add: unsigned_of_nat take_bit_nat_eq_self)
  have dr: "drop (16 - k) lb = replicate k (of_nat k)"
    using lb_len by (simp add: lb_def k_def)
  have tk: "take (16 - k) lb = b"
    using lb_len by (simp add: lb_def k_def)
  have "decipher_final c1 = Inr b"
    using k1 k16 by (simp add: decipher_final_def s p chn pl lY Let_def last_lb uk dr tk)
  moreover have "a @ b = m"
    by (simp add: a_def b_def)
  ultimately show ?thesis
    using o1a by simp
qed

lemma unat_of_nat16: "m < 65536 \<Longrightarrow> unat (of_nat m :: 16 word) = m"
  by (simp add: unsigned_of_nat take_bit_nat_eq_self)

lemma hex_val_digit:
  assumes "n < 16"
  shows "hex_val (hex_digit n) = Some n"
proof (cases "n < 10")
  case True
  then have "unat (of_nat (0x30 + n) :: 16 word) = 0x30 + n"
    by (intro unat_of_nat16) simp
  with True show ?thesis
    unfolding hex_val_def hex_digit_def Let_def by simp
next
  case False
  with assms have "unat (of_nat (0x57 + n) :: 16 word) = 0x57 + n"
    by (intro unat_of_nat16) simp
  with False assms show ?thesis
    unfolding hex_val_def hex_digit_def Let_def by simp
qed

lemma hex_val_byte:
  "hex_val (hex_digit (unat (b :: byte) div 16)) = Some (unat b div 16)"
  "hex_val (hex_digit (unat (b :: byte) mod 16)) = Some (unat b mod 16)"
proof -
  have "unat b < 256" using unsigned_less [of b] by simp
  then have "unat b div 16 < 16" by simp
  then show "hex_val (hex_digit (unat (b :: byte) div 16)) = Some (unat b div 16)"
    by (rule hex_val_digit)
  show "hex_val (hex_digit (unat (b :: byte) mod 16)) = Some (unat b mod 16)"
    by (rule hex_val_digit) simp
qed

lemma hex_decode_encode: "hex_decode (hex_encode bs) = bs"
proof (induction bs)
  case Nil
  then show ?case by (simp add: hex_encode_def)
next
  case (Cons b bs)
  have "of_nat (16 * (unat b div 16) + unat b mod 16) = b"
    by simp
  with Cons show ?case
    by (simp add: hex_encode_def hex_byte_def hex_val_byte)
qed

lemma length_hex_encode: "length (hex_encode bs) = 2 * length bs"
  by (induction bs) (simp_all add: hex_encode_def hex_byte_def)

lemma decryptLogData_ciphertext:
  assumes "encryptionKey ctx = Some key" and "usable_key key"
  shows "decryptLogData ctx
           (JStr (hex_encode (aes_256_cbc (utf8_encode key) (take 16 (utf8_encode key)) m)))
         = JSON_parse (utf8_decode m)"
proof -
  define w where "w = key_expansion (utf8_encode key)"
  define iv where "iv = utf8_encode (take 16 key)"
  define ct where "ct = cbc_encrypt w iv (blocks (pkcs7_pad m))"
  from assms(2) have l: "length (utf8_encode key) = 32" and liv: "length iv = 16"
    by (simp_all add: usable_key_def iv_def)
  have iv': "take 16 (utf8_encode key) = iv"
    using usable_key_iv(1) [OF assms(2)] by (simp add: iv_def)
  obtain out1 c1 where u: "decipher_update \<lparr>sched = w, chain = iv, pending = []\<rparr> ct = (out1, c1)"
    by (cases "decipher_update \<lparr>sched = w, chain = iv, pending = []\<rparr> ct") blast
  from decipher_run [OF liv u [unfolded ct_def]]
  obtain out2 where f: "decipher_final c1 = Inr out2" and m: "out1 @ out2 = m"
    by blast
  have ev: "even (length (hex_encode ct))"
    by (simp add: length_hex_encode)
  have "decryptLogData ctx (JStr (hex_encode ct)) = JSON_parse (utf8_decode m)"
    using l liv u f m ev
    by (simp add: decryptLogData_def assms(1) createCipheriv_def Let_def hex_decode_encode
        iv_def [symmetric] w_def [symmetric])
  then show ?thesis
    by (simp add: ct_def aes_256_cbc_def iv' w_def)
qed

lemma survives_sample_entry: "survives_json sample_entry"
  by (simp add: survives_json_def sample_entry_def JSON_stringify_def JSON_parse_def js_def
      quote_def quote_unit_def is_high_def is_low_def is_surrogate_def utf8_cp_def unit_cp_def
      skip_ws_def is_ws_def cons_fst_def define_property_def index_of_def is_digit_def)

section \<open>Reading the log file\<close>

text \<open>
  Claim C7. When the configured backend is not the text file, \<open>readTextLogs\<close> fails with
  the error of line 199, whatever the state of the world; it returns logs only when the
  text backend is configured.
\<close>

theorem readTextLogs_only_text_backend:
  assumes "load_module path (Inr cfg) = Inr ctx"
  shows "(database_type cfg \<noteq> Some (js ''text'') \<longrightarrow>
            readTextLogs ctx w =
              Inl (Error (js ''Text file path is not specified in the configuration file'')))
       \<and> (\<forall>logs. readTextLogs ctx w = Inr logs \<longrightarrow> database_type cfg = Some (js ''text''))"
  using load_module_dbType(1) [OF assms]
  by (auto simp: readTextLogs_def)

theorem readTextLogs_only_text_backend_witness:
  "load_module config_path (Inr sql_cfg) = Inr sql_module
   \<and> database_type sql_cfg \<noteq> Some (js ''text'')
   \<and> readTextLogs sql_module fresh_world =
        Inl (Error (js ''Text file path is not specified in the configuration file''))"
proof -
  have l: "load_module config_path (Inr sql_cfg) = Inr sql_module"
    by (rule load_module_sql_module)
  have n: "database_type sql_cfg \<noteq> Some (js ''text'')"
    by (simp add: sql_cfg_def js_def)
  from readTextLogs_only_text_backend [OF l, of fresh_world] n l show ?thesis
    by blast
qed

text \<open>
  Claim C6, as stated, fails: with the text backend and no log file, \<open>readTextLogs\<close> does
  not reach its own check for an empty file; \<open>fs.readFileSync\<close> throws \<open>ENOENT\<close> first.
\<close>

theorem readTextLogs_absent_counterexample:
  "readTextLogs (text_module False key32) (fresh_world\<lparr>log_file := None\<rparr>)
     = Inl (SystemError (js ''ENOENT''))
   \<and> readTextLogs (text_module False key32) (fresh_world\<lparr>log_file := None\<rparr>)
     \<noteq> Inl (Error (js ''Log file is empty''))"
  by (simp add: readTextLogs_def readFileSync_def text_module_def fresh_world_def)

text \<open>
  Claim C6, amended. With the text backend, \<open>readTextLogs\<close> fails in both states: with
  the system error \<open>ENOENT\<close> when the file is absent, with \<open>Log file is empty\<close> when it
  exists and has length zero.
\<close>

theorem readTextLogs_absent_or_empty:
  assumes "dbType ctx = js ''text''"
  shows "(log_file w = None \<longrightarrow> readTextLogs ctx w = Inl (SystemError (js ''ENOENT'')))
       \<and> (log_file w = Some [] \<longrightarrow> readTextLogs ctx w = Inl (Error (js ''Log file is empty'')))"
  using assms by (simp add: readTextLogs_def readFileSync_def)

theorem readTextLogs_absent_or_empty_witness:
  "dbType (text_module False key32) = js ''text''
   \<and> log_file (fresh_world\<lparr>log_file := Some []\<rparr>) = Some []
   \<and> readTextLogs (text_module False key32) (fresh_world\<lparr>log_file := Some []\<rparr>)
       = Inl (Error (js ''Log file is empty''))
   \<and> log_file fresh_world = None
   \<and> readTextLogs (text_module False key32) fresh_world = Inl (SystemError (js ''ENOENT''))"
  using readTextLogs_absent_or_empty
          [of "text_module False key32" "fresh_world\<lparr>log_file := Some []\<rparr>"]
        readTextLogs_absent_or_empty [of "text_module False key32" fresh_world]
  by (simp add: text_module_def fresh_world_def)

section \<open>A write that fails\<close>

text \<open>
  Claim C5. Whatever the backend and whatever fails inside the \<open>try\<close> block, the listener
  returns normally: no exception leaves it, the response is as it was, and when the
  write failed the only change to the world is one \<open>console.error\<close> line carrying the
  error.
\<close>

theorem logger_catches_write_failure:
  "\<exists>w'. logger ctx req t0 p w = Inr w' \<and> response w' = response w
     \<and> (\<forall>e. store ctx (make_log req (response w) (hrtime t0) p) w = Inl e \<longrightarrow>
            w' = w\<lparr>console_error := console_error w @ [(''Error logging data:'', e)]\<rparr>)"
  by (auto simp: logger_def on_finish_def Let_def split: sum.splits dest: store_frame)

theorem logger_catches_write_failure_witness:
  "store sql_module
      (make_log sample_request
         (response (fresh_world\<lparr>db_fault := Some (BackendError (js ''connection refused''))\<rparr>))
         (hrtime 5000000000) sample_probe)
      (fresh_world\<lparr>db_fault := Some (BackendError (js ''connection refused''))\<rparr>)
     = Inl (BackendError (js ''connection refused''))
   \<and> logger sql_module sample_request 5000000000 sample_probe
        (fresh_world\<lparr>db_fault := Some (BackendError (js ''connection refused''))\<rparr>)
      = Inr (fresh_world\<lparr>db_fault := Some (BackendError (js ''connection refused'')),
              console_error := [(''Error logging data:'', BackendError (js ''connection refused''))]\<rparr>)"
proof -
  let ?w = "fresh_world\<lparr>db_fault := Some (BackendError (js ''connection refused''))\<rparr>"
  have s: "store sql_module (make_log sample_request (response ?w) (hrtime 5000000000) sample_probe) ?w
             = Inl (BackendError (js ''connection refused''))"
    by (simp add: store_def sql_module_def js_def db_insert_def fresh_world_def)
  from logger_catches_write_failure [of sql_module sample_request 5000000000 sample_probe ?w] s
  show ?thesis
    by (auto simp: fresh_world_def)
qed

section \<open>The encryption key\<close>

text \<open>
  Claim C3, as stated, fails: start-up with encryption enabled and a key of 31 bytes
  succeeds. Lines 76 to 81 only ask whether a key is set.
\<close>

theorem load_module_accepts_short_key_counterexample:
  "length (utf8_encode key31) = 31
   \<and> load_module config_path (Inr (text_cfg True key31)) = Inr (text_module True key31)
   \<and> enableTextEncryption (text_module True key31)"
proof -
  have "key31 \<noteq> []" by (simp add: key31_def js_def)
  then show ?thesis
    by (simp add: length_key31 load_module_text_module) (simp add: text_module_def)
qed

text \<open>
  Claim C3, amended. For a text configuration with encryption enabled, start-up fails
  exactly when the key is absent or empty, with \<open>Encryption key is not set in the
  configuration file\<close>; the length of the key is not looked at. The length is checked
  by \<open>crypto.createCipheriv\<close> inside every call of \<open>encryptLogData\<close>: with a key
  that is not usable (its UTF-8 form is not 32 bytes, or its first 16 code units are not
  16 bytes) every call fails, and the listener leaves the log file as it was; for a key of
  ASCII characters that is at least 16 and not 32 characters long the error is
  \<open>Invalid key length\<close>. With a usable key \<open>encryptLogData\<close> returns a hex string.
\<close>

theorem key_checked_at_first_use:
  assumes "database_type cfg = Some (js ''text'')" and "cfg_text cfg = Some t"
    and "\<not> falsy (file_path t)" and "enable_log_security t"
  shows "(falsy (log_security_encryption_key t) \<longrightarrow>
            load_module path (Inr cfg) = Inl (Error (js ''Encryption key is not set in the configuration file'')))
       \<and> (\<not> falsy (log_security_encryption_key t) \<longrightarrow>
            (\<exists>ctx key. load_module path (Inr cfg) = Inr ctx
               \<and> log_security_encryption_key t = Some key \<and> encryptionKey ctx = Some key
               \<and> enableTextEncryption ctx
               \<and> (usable_key key \<longrightarrow> (\<exists>h. encryptLogData ctx l = Inr (JStr h)))
               \<and> (\<not> usable_key key \<longrightarrow>
                     (\<exists>e. encryptLogData ctx l = Inl e)
                     \<and> (\<exists>w'. logger ctx req t0 p w = Inr w' \<and> log_file w' = log_file w))
               \<and> (ascii key \<and> 16 \<le> length key \<and> length key \<noteq> 32 \<longrightarrow>
                     encryptLogData ctx l = Inl (CryptoError (js ''Invalid key length'')))))"
proof (intro conjI impI)
  assume "falsy (log_security_encryption_key t)"
  with load_module_text [OF assms(1-3)] assms(4)
  show "load_module path (Inr cfg) = Inl (Error (js ''Encryption key is not set in the configuration file''))"
    by simp
next
  assume nf: "\<not> falsy (log_security_encryption_key t)"
  then obtain key where key: "log_security_encryption_key t = Some key"
    by (auto simp: falsy_def)
  define ctx where "ctx = \<lparr>conf = cfg, dbType = js ''text'', logFilePath = file_path t,
                     enableTextEncryption = True, encryptionKey = Some key\<rparr>"
  have ld: "load_module path (Inr cfg) = Inr ctx"
    using load_module_text [OF assms(1-3)] assms(4) nf key by (simp add: ctx_def)
  have en: "enableTextEncryption ctx" and ek: "encryptionKey ctx = Some key"
    and db: "dbType ctx = js ''text''"
    by (simp_all add: ctx_def)
  note enc = encryptLogData_enabled [OF en ek]
  have ok: "usable_key key \<longrightarrow> (\<exists>h. encryptLogData ctx l = Inr (JStr h))"
    by (simp add: enc usable_key_def)
  have bad: "\<not> usable_key key \<Longrightarrow> \<exists>e. encryptLogData ctx l' = Inl e" for l'
    by (auto simp: encryptLogData_enabled [OF en ek] usable_key_def)
  have bad2: "\<not> usable_key key \<longrightarrow>
                     (\<exists>e. encryptLogData ctx l = Inl e)
                     \<and> (\<exists>w'. logger ctx req t0 p w = Inr w' \<and> log_file w' = log_file w)"
    using bad logger_text_encrypt_fails [OF db, of req t0 p w] by blast
  have asc: "ascii key \<and> 16 \<le> length key \<and> length key \<noteq> 32 \<longrightarrow>
                     encryptLogData ctx l = Inl (CryptoError (js ''Invalid key length''))"
  proof (intro impI, elim conjE)
    assume a: "ascii key" and l: "16 \<le> length key" "length key \<noteq> 32"
    from a have "ascii (take 16 key)"
      by (auto simp: ascii_def dest: in_set_takeD)
    with a l show "encryptLogData ctx l = Inl (CryptoError (js ''Invalid key length''))"
      by (simp add: enc utf8_encode_ascii)
  qed
  from ld key ek en ok bad2 asc
  show "\<exists>ctx key. load_module path (Inr cfg) = Inr ctx
               \<and> log_security_encryption_key t = Some key \<and> encryptionKey ctx = Some key
               \<and> enableTextEncryption ctx
               \<and> (usable_key key \<longrightarrow> (\<exists>h. encryptLogData ctx l = Inr (JStr h)))
               \<and> (\<not> usable_key key \<longrightarrow>
                     (\<exists>e. encryptLogData ctx l = Inl e)
                     \<and> (\<exists>w'. logger ctx req t0 p w = Inr w' \<and> log_file w' = log_file w))
               \<and> (ascii key \<and> 16 \<le> length key \<and> length key \<noteq> 32 \<longrightarrow>
                     encryptLogData ctx l = Inl (CryptoError (js ''Invalid key length'')))"
    by blast
qed

theorem key_checked_at_first_use_witness:
  "database_type (text_cfg True key31) = Some (js ''text'')
   \<and> cfg_text (text_cfg True key31)
       = Some \<lparr>file_path = Some (js ''./logs/log.txt''), enable_log_security = True,
                log_security_encryption_key = Some key31\<rparr>
   \<and> \<not> falsy (Some (js ''./logs/log.txt''))
   \<and> \<not> falsy (Some key31)
   \<and> \<not> usable_key key31
   \<and> load_module config_path (Inr (text_cfg True key31)) = Inr (text_module True key31)
   \<and> encryptLogData (text_module True key31) JNull = Inl (CryptoError (js ''Invalid key length''))"
proof -
  let ?t = "\<lparr>file_path = Some (js ''./logs/log.txt''), enable_log_security = True,
                log_security_encryption_key = Some key31\<rparr>"
  have ne: "key31 \<noteq> []" by (simp add: key31_def js_def)
  have a1: "database_type (text_cfg True key31) = Some (js ''text'')"
    and a2: "cfg_text (text_cfg True key31) = Some ?t"
    by (simp_all add: text_cfg_def)
  have a3: "\<not> falsy (file_path ?t)" and a4: "enable_log_security ?t"
    and a5: "\<not> falsy (log_security_encryption_key ?t)"
    using ne by (simp_all add: falsy_def js_def)
  have ld: "load_module config_path (Inr (text_cfg True key31)) = Inr (text_module True key31)"
    by (rule load_module_text_module [OF ne])
  have len: "length key31 = 31" by (simp add: key31_def js_def)
  from key_checked_at_first_use [OF a1 a2 a3 a4, of config_path JNull sample_request 0 sample_probe fresh_world] a5
  obtain ctx key where c: "load_module config_path (Inr (text_cfg True key31)) = Inr ctx"
    and k: "log_security_encryption_key ?t = Some key"
    and e: "ascii key \<and> 16 \<le> length key \<and> length key \<noteq> 32 \<longrightarrow>
              encryptLogData ctx JNull = Inl (CryptoError (js ''Invalid key length''))"
    by blast
  from c ld have ctx: "ctx = text_module True key31" by simp
  from k have key: "key = key31" by simp
  from e ascii_js_keys(1) len have "encryptLogData (text_module True key31) JNull
      = Inl (CryptoError (js ''Invalid key length''))"
    by (simp add: ctx key)
  moreover have "\<not> usable_key key31"
    using ascii_usable [OF ascii_js_keys(1)] len by simp
  ultimately show ?thesis
    using a1 a2 a3 a5 ld by simp
qed

text \<open>
  Claim C4, as stated, fails for some keys of 32 bytes: a key whose first 16 code units
  are not all ASCII gives an IV of more than 16 bytes, every call throws and there is no
  ciphertext to compare. Here the first 16 code units of the key take 17 bytes.
\<close>

theorem encryptLogData_no_ciphertext_counterexample:
  "length (utf8_encode key_e_acute) = 32
   \<and> length (utf8_encode (take 16 key_e_acute)) = 17
   \<and> encryptLogData (text_module True key_e_acute) (JStr (js ''GET /''))
       = Inl (CryptoError (js ''Invalid initialization vector''))"
proof -
  have en: "enableTextEncryption (text_module True key_e_acute)"
    and ek: "encryptionKey (text_module True key_e_acute) = Some key_e_acute"
    by (simp_all add: text_module_def)
  have iv: "length (utf8_encode (take 16 key_e_acute)) = 17"
    by (simp add: key_e_acute_def js_def utf8_encode.simps unit_cp_def utf8_cp_def
        is_high_def is_low_def is_surrogate_def)
  show ?thesis
    using length_key_e_acute iv by (simp add: encryptLogData_enabled [OF en ek])
qed

text \<open>
  Claim C4, amended. For a key of 32 bytes whose first 16 code units take 16 bytes, every
  call of \<open>encryptLogData\<close> with that key returns a ciphertext, in whatever module state it
  runs, and it is the same for the same record: the hex form of AES-256-CBC of the
  serialised record under the key, with the first 16 bytes of the key as IV.
\<close>

theorem encryptLogData_same_ciphertext:
  assumes "enableTextEncryption c1" and "enableTextEncryption c2"
    and "encryptionKey c1 = Some key" and "encryptionKey c2 = Some key"
    and "usable_key key"
  shows "encryptLogData c1 r =
           Inr (JStr (hex_encode (aes_256_cbc (utf8_encode key) (take 16 (utf8_encode key))
                                    (utf8_encode (JSON_stringify r)))))
       \<and> encryptLogData c2 r =
           Inr (JStr (hex_encode (aes_256_cbc (utf8_encode key) (take 16 (utf8_encode key))
                                    (utf8_encode (JSON_stringify r)))))"
proof -
  from assms(5) have l: "length (utf8_encode key) = 32"
    and iv: "length (utf8_encode (take 16 key)) = 16"
    by (simp_all add: usable_key_def)
  from usable_key_iv(1) [OF assms(5)] l iv show ?thesis
    by (simp add: encryptLogData_enabled [OF assms(1,3)] encryptLogData_enabled [OF assms(2,4)])
qed

theorem encryptLogData_same_ciphertext_witness:
  "enableTextEncryption (text_module True key32)
   \<and> enableTextEncryption ((text_module True key32)\<lparr>logFilePath := None\<rparr>)
   \<and> encryptionKey (text_module True key32) = Some key32
   \<and> encryptionKey ((text_module True key32)\<lparr>logFilePath := None\<rparr>) = Some key32
   \<and> usable_key key32
   \<and> encryptLogData (text_module True key32) (JStr (js ''GET /''))
       = Inr (JStr (hex_encode (aes_256_cbc (utf8_encode key32) (take 16 (utf8_encode key32))
                                  (utf8_encode (JSON_stringify (JStr (js ''GET /'')))))))
   \<and> encryptLogData ((text_module True key32)\<lparr>logFilePath := None\<rparr>) (JStr (js ''GET /''))
       = Inr (JStr (hex_encode (aes_256_cbc (utf8_encode key32) (take 16 (utf8_encode key32))
                                  (utf8_encode (JSON_stringify (JStr (js ''GET /'')))))))"
proof -
  have a: "enableTextEncryption (text_module True key32)"
    "enableTextEncryption ((text_module True key32)\<lparr>logFilePath := None\<rparr>)"
    "encryptionKey (text_module True key32) = Some key32"
    "encryptionKey ((text_module True key32)\<lparr>logFilePath := None\<rparr>) = Some key32"
    by (simp_all add: text_module_def)
  from encryptLogData_same_ciphertext [OF a usable_key32, of "JStr (js ''GET /'')"] a usable_key32
  show ?thesis
    by blast
qed

section \<open>Round trip of encryption and decryption\<close>

text \<open>
  Claim C1, as stated, fails: a key can be exactly 32 bytes long and still be rejected.
  The IV is the UTF-8 form of the first 16 code units of the key, which is longer than
  16 bytes when one of them is not ASCII; then \<open>createCipheriv\<close> throws and nothing is
  encrypted.
\<close>

theorem encryptLogData_rejects_32_byte_key_counterexample:
  "length (utf8_encode key_e_acute) = 32
   \<and> load_module config_path (Inr (text_cfg True key_e_acute)) = Inr (text_module True key_e_acute)
   \<and> encryptLogData (text_module True key_e_acute) (JObj [])
       = Inl (CryptoError (js ''Invalid initialization vector''))"
proof -
  have ne: "key_e_acute \<noteq> []" by (simp add: key_e_acute_def)
  have en: "enableTextEncryption (text_module True key_e_acute)"
    and ek: "encryptionKey (text_module True key_e_acute) = Some key_e_acute"
    by (simp_all add: text_module_def)
  show ?thesis
    using length_key_e_acute
    by (simp add: load_module_text_module [OF ne] encryptLogData_enabled [OF en ek])
qed

text \<open>
  Claim C1, amended. For a key of 32 bytes whose first 16 code units take 16 bytes, and a
  record that \<open>JSON\<close> reads back from its own text, \<open>encryptLogData\<close> returns a
  ciphertext and \<open>decryptLogData\<close> of that ciphertext returns the record.
\<close>

theorem decrypt_encrypt_round_trip:
  assumes "enableTextEncryption ctx" and "encryptionKey ctx = Some key"
    and "usable_key key" and "survives_json r"
  shows "\<exists>c. encryptLogData ctx r = Inr c \<and> decryptLogData ctx c = Inr r"
proof -
  from assms(3) have l: "length (utf8_encode key) = 32"
    and iv: "length (utf8_encode (take 16 key)) = 16"
    by (simp_all add: usable_key_def)
  have e: "encryptLogData ctx r =
           Inr (JStr (hex_encode (aes_256_cbc (utf8_encode key) (take 16 (utf8_encode key))
                                    (utf8_encode (JSON_stringify r)))))"
    using usable_key_iv(1) [OF assms(3)] l iv
    by (simp add: encryptLogData_enabled [OF assms(1,2)])
  from decryptLogData_ciphertext [OF assms(2,3)] assms(4)
  have "decryptLogData ctx
           (JStr (hex_encode (aes_256_cbc (utf8_encode key) (take 16 (utf8_encode key))
                                    (utf8_encode (JSON_stringify r))))) = Inr r"
    by (simp add: survives_json_def)
  with e show ?thesis by blast
qed

theorem decrypt_encrypt_round_trip_witness:
  "enableTextEncryption (text_module True key32)
   \<and> encryptionKey (text_module True key32) = Some key32
   \<and> usable_key key32
   \<and> survives_json sample_entry
   \<and> encryptLogData (text_module True key32) sample_entry
       = Inr (JStr (hex_encode (aes_256_cbc (utf8_encode key32) (utf8_encode (take 16 key32))
                                  (utf8_encode (JSON_stringify sample_entry)))))
   \<and> decryptLogData (text_module True key32)
         (JStr (hex_encode (aes_256_cbc (utf8_encode key32) (utf8_encode (take 16 key32))
                              (utf8_encode (JSON_stringify sample_entry)))))
       = Inr sample_entry"
proof -
  have a: "enableTextEncryption (text_module True key32)"
    "encryptionKey (text_module True key32) = Some key32"
    by (simp_all add: text_module_def)
  have e: "encryptLogData (text_module True key32) sample_entry
       = Inr (JStr (hex_encode (aes_256_cbc (utf8_encode key32) (utf8_encode (take 16 key32))
                                  (utf8_encode (JSON_stringify sample_entry)))))"
    using usable_key32 by (simp add: encryptLogData_enabled [OF a] usable_key_def)
  from decrypt_encrypt_round_trip [OF a usable_key32 survives_sample_entry]
  obtain c where "encryptLogData (text_module True key32) sample_entry = Inr c"
    and "decryptLogData (text_module True key32) c = Inr sample_entry"
    by blast
  with e a usable_key32 survives_sample_entry show ?thesis
    by simp
qed

section \<open>CPU usage\<close>

text \<open>
  Claim C8, as stated, fails twice. One core with 2 user, 2 system and 32764 idle ticks
  is published as \<open>0.01\<close>, \<open>0.01\<close> and \<open>99.99\<close>, which add up to \<open>100.01\<close>: each
  value is rounded on its own. And for a snapshot of zeros the published values are
  \<open>NaN\<close>, which is in no range.
\<close>

theorem getCpuUsage_sum_counterexample:
  "cpu_usage.user (getCpuUsage snapshot_rounding) = js ''0.01''
   \<and> system (getCpuUsage snapshot_rounding) = js ''0.01''
   \<and> cpu_usage.idle (getCpuUsage snapshot_rounding) = js ''99.99''
   \<and> cpu_usage.user (getCpuUsage snapshot_zero) = js ''NaN''"
proof -
  have "ticks_total snapshot_rounding < 2 ^ 53"
    by (simp add: ticks_snapshot_rounding)
  from getCpuUsage_exact [OF this]
  have a: "cpu_usage.user (getCpuUsage snapshot_rounding) = js ''0.01''
   \<and> system (getCpuUsage snapshot_rounding) = js ''0.01''
   \<and> cpu_usage.idle (getCpuUsage snapshot_rounding) = js ''99.99''"
    by (simp add: ticks_snapshot_rounding percent_2_32768 percent_32764_32768
        toFixed_25_4096 toFixed_204775_2048)
  have "ticks_total snapshot_zero = 0"
    by (simp add: ticks_total_def ticks_def snapshot_zero_def)
  from getCpuUsage_zero [OF this] a show ?thesis by simp
qed

text \<open>
  Claim C8, amended. For a snapshot whose ticks add up to a positive total below \<open>2^53\<close>
  (where sums of doubles are exact), \<open>total\<close> is the sum of the user, nice, system, idle
  and irq ticks of all cores, and \<open>user\<close>, \<open>system\<close> and \<open>idle\<close> are decimal strings
  with two places, \<open>fixed_digits 2 n\<close> for a number of hundredths \<open>n\<close>: each \<open>n\<close> is
  at most 10000 (the value is in \<open>[0, 100]\<close>), each is within one half (plus the rounding
  of the two double operations, below \<open>2^-38\<close>) of \<open>tick / total * 100\<close> in hundredths,
  and the three add up to at most 10001, that is \<open>100.01\<close>.
\<close>

theorem getCpuUsage_percentages:
  assumes "0 < ticks_total cs" and "ticks_total cs < 2 ^ 53"
  shows "total (getCpuUsage cs) = Num (of_nat (ticks_total cs))
     \<and> (\<exists>nu ns ni.
          cpu_usage.user (getCpuUsage cs) = fixed_digits 2 nu
        \<and> system (getCpuUsage cs) = fixed_digits 2 ns
        \<and> cpu_usage.idle (getCpuUsage cs) = fixed_digits 2 ni
        \<and> nu \<le> 10000 \<and> ns \<le> 10000 \<and> ni \<le> 10000
        \<and> \<bar>rat_of_nat nu - 10000 * of_nat (ticks cpu_times.user cs) / of_nat (ticks_total cs)\<bar>
              \<le> 1 / 2 + 1 / 2 ^ 38
        \<and> \<bar>rat_of_nat ns - 10000 * of_nat (ticks sys cs) / of_nat (ticks_total cs)\<bar>
              \<le> 1 / 2 + 1 / 2 ^ 38
        \<and> \<bar>rat_of_nat ni - 10000 * of_nat (ticks cpu_times.idle cs) / of_nat (ticks_total cs)\<bar>
              \<le> 1 / 2 + 1 / 2 ^ 38
        \<and> nu + ns + ni \<le> 10001)"
proof -
  let ?t = "ticks_total cs"
  let ?u = "ticks cpu_times.user cs" and ?s = "ticks sys cs" and ?i = "ticks cpu_times.idle cs"
  note ex = getCpuUsage_exact [OF assms(2)]
  from toFixed2_percent [OF ticks_le_total(1) assms(1)] obtain nu where
    u: "toFixed 2 (percent (Num (of_nat ?u)) (Num (of_nat ?t))) = fixed_digits 2 nu"
    and ul: "nu \<le> 10000"
    and ue: "\<bar>rat_of_nat nu - 10000 * of_nat ?u / of_nat ?t\<bar> \<le> 1 / 2 + 1 / 2 ^ 38"
    by blast
  from toFixed2_percent [OF ticks_le_total(2) assms(1)] obtain ns where
    s: "toFixed 2 (percent (Num (of_nat ?s)) (Num (of_nat ?t))) = fixed_digits 2 ns"
    and sl: "ns \<le> 10000"
    and se: "\<bar>rat_of_nat ns - 10000 * of_nat ?s / of_nat ?t\<bar> \<le> 1 / 2 + 1 / 2 ^ 38"
    by blast
  from toFixed2_percent [OF ticks_le_total(3) assms(1)] obtain ni where
    i: "toFixed 2 (percent (Num (of_nat ?i)) (Num (of_nat ?t))) = fixed_digits 2 ni"
    and il: "ni \<le> 10000"
    and ie: "\<bar>rat_of_nat ni - 10000 * of_nat ?i / of_nat ?t\<bar> \<le> 1 / 2 + 1 / 2 ^ 38"
    by blast
  have t0: "(0::rat) < of_nat ?t" using assms(1) by simp
  have "rat_of_nat (?u + ?s + ?i) \<le> rat_of_nat ?t"
    using ticks_le_total(4) [of cs] by (simp only: of_nat_le_iff)
  then have "(of_nat ?u + of_nat ?s + of_nat ?i) / rat_of_nat ?t \<le> 1"
    using t0 by simp
  then have frac: "10000 * of_nat ?u / rat_of_nat ?t + 10000 * of_nat ?s / rat_of_nat ?t
      + 10000 * of_nat ?i / rat_of_nat ?t \<le> 10000"
    by (simp add: add_divide_distrib)
  define a where "a = 10000 * of_nat ?u / rat_of_nat ?t"
  define b where "b = 10000 * of_nat ?s / rat_of_nat ?t"
  define c where "c = 10000 * of_nat ?i / rat_of_nat ?t"
  define eps :: rat where "eps = 1 / 2 + 1 / 2 ^ 38"
  have eps: "eps < 2 / 3" by (simp add: eps_def)
  from ue se ie have "\<bar>rat_of_nat nu - a\<bar> \<le> eps" "\<bar>rat_of_nat ns - b\<bar> \<le> eps"
    "\<bar>rat_of_nat ni - c\<bar> \<le> eps"
    by (simp_all only: a_def b_def c_def eps_def)
  moreover from frac have "a + b + c \<le> 10000"
    by (simp only: a_def b_def c_def)
  ultimately have "rat_of_nat nu + rat_of_nat ns + rat_of_nat ni < 10002"
    using eps by linarith
  then have "rat_of_nat (nu + ns + ni) < rat_of_nat 10002" by simp
  then have "nu + ns + ni < 10002" by (simp only: of_nat_less_iff)
  then have sum: "nu + ns + ni \<le> 10001" by simp
  have "total (getCpuUsage cs) = Num (of_nat ?t)"
    by (simp add: ex)
  moreover have "cpu_usage.user (getCpuUsage cs) = fixed_digits 2 nu"
    "system (getCpuUsage cs) = fixed_digits 2 ns" "cpu_usage.idle (getCpuUsage cs) = fixed_digits 2 ni"
    by (simp_all add: ex u s i)
  ultimately show ?thesis
    using ul sl il ue se ie sum by blast
qed

theorem getCpuUsage_percentages_witness:
  "0 < ticks_total snapshot_rounding \<and> ticks_total snapshot_rounding < 2 ^ 53
   \<and> total (getCpuUsage snapshot_rounding) = Num 32768"
  using getCpuUsage_percentages [of snapshot_rounding]
  by (simp add: ticks_snapshot_rounding)

text \<open>
  Claim C10. \<open>getCpuUsage\<close> is a total function: it throws nothing. When every counter
  of every core is zero, \<open>total\<close> is 0 and the three published fields are the string
  \<open>NaN\<close> (from \<open>0 / 0\<close>); when the total is positive (and below \<open>2^53\<close>) none of them
  is \<open>NaN\<close>.
\<close>

theorem getCpuUsage_zero_total:
  "(ticks_total cs = 0 \<longrightarrow>
      getCpuUsage cs = \<lparr>user = js ''NaN'', system = js ''NaN'', idle = js ''NaN'', total = Num 0\<rparr>)
   \<and> (0 < ticks_total cs \<and> ticks_total cs < 2 ^ 53 \<longrightarrow>
        cpu_usage.user (getCpuUsage cs) \<noteq> js ''NaN'' \<and> system (getCpuUsage cs) \<noteq> js ''NaN''
        \<and> cpu_usage.idle (getCpuUsage cs) \<noteq> js ''NaN'')"
proof (intro conjI impI)
  assume "ticks_total cs = 0"
  then show "getCpuUsage cs = \<lparr>user = js ''NaN'', system = js ''NaN'', idle = js ''NaN'', total = Num 0\<rparr>"
    by (rule getCpuUsage_zero)
next
  assume a: "0 < ticks_total cs \<and> ticks_total cs < 2 ^ 53"
  then have t: "0 < ticks_total cs" and b: "ticks_total cs < 2 ^ 53" by simp_all
  note ex = getCpuUsage_exact [OF b]
  have nn: "toFixed 2 (percent (Num (of_nat u)) (Num (of_nat (ticks_total cs)))) \<noteq> js ''NaN''"
    if "u \<le> ticks_total cs" for u
  proof -
    from percent_bounds [OF that t] obtain r where
      "percent (Num (of_nat u)) (Num (of_nat (ticks_total cs))) = Num r" by blast
    then show ?thesis by (simp add: toFixed_Num_not_NaN)
  qed
  show "cpu_usage.user (getCpuUsage cs) \<noteq> js ''NaN''"
    using nn [OF ticks_le_total(1)] by (simp add: ex)
  show "system (getCpuUsage cs) \<noteq> js ''NaN''"
    using nn [OF ticks_le_total(2)] by (simp add: ex)
  show "cpu_usage.idle (getCpuUsage cs) \<noteq> js ''NaN''"
    using nn [OF ticks_le_total(3)] by (simp add: ex)
qed

theorem getCpuUsage_zero_total_witness:
  "ticks_total snapshot_zero = 0
   \<and> getCpuUsage snapshot_zero
      = \<lparr>user = js ''NaN'', system = js ''NaN'', idle = js ''NaN'', total = Num 0\<rparr>
   \<and> 0 < ticks_total snapshot_rounding \<and> ticks_total snapshot_rounding < 2 ^ 53
   \<and> cpu_usage.user (getCpuUsage snapshot_rounding) \<noteq> js ''NaN''"
proof -
  have z: "ticks_total snapshot_zero = 0"
    by (simp add: ticks_total_def ticks_def snapshot_zero_def)
  have r: "0 < ticks_total snapshot_rounding \<and> ticks_total snapshot_rounding < 2 ^ 53"
    by (simp add: ticks_snapshot_rounding)
  from getCpuUsage_zero_total [of snapshot_zero] getCpuUsage_zero_total [of snapshot_rounding] z r
  show ?thesis by blast
qed


section \<open>Response time\<close>

text \<open>
  Claim C9. When the clock has not gone back between the start mark and the finish, and
  less than \<open>9 * 10^15\<close> nanoseconds (104 days) have passed, the \<open>responseTime\<close> of the
  record is a decimal string with three places and no sign, \<open>fixed_digits 3 n\<close>, where
  \<open>n\<close> is the elapsed time in microseconds rounded to the nearest integer: the clock
  delta in milliseconds, to three places. When the delta lies exactly between two
  microseconds, the double that holds the milliseconds decides which of the two it is.
\<close>

theorem responseTime_is_elapsed_ms:
  assumes "t0 \<le> hr_now p" and "hr_now p - t0 < 9 * 10 ^ 15"
  shows "\<exists>n. responseTime (make_log req res (hrtime t0) p) = fixed_digits 3 n
       \<and> (let d = hr_now p - t0 in
            (d mod 1000 < 500 \<longrightarrow> n = d div 1000)
          \<and> (500 < d mod 1000 \<longrightarrow> n = d div 1000 + 1)
          \<and> (d mod 1000 = 500 \<longrightarrow> n = d div 1000 \<or> n = d div 1000 + 1))"
proof -
  define d where "d = hr_now p - t0"
  from elapsed_ms_error [of d] assms(2) obtain x where
    e: "elapsedTimeInMs (int (d div 10 ^ 9), int (d mod 10 ^ 9)) = Num x" and x0: "0 \<le> x"
    and err: "\<bar>x - of_nat d / 10 ^ 6\<bar> < 1 / 10 ^ 6"
    unfolding d_def by blast
  have "responseTime (make_log req res (hrtime t0) p) = toFixed 3 (Num x)"
    using e by (simp add: make_log_def Let_def hrtime_since_delta [OF assms(1)] d_def)
  then have "responseTime (make_log req res (hrtime t0) p) = fixed_digits 3 (fixed_scaled 3 x)"
    using x0 by (simp add: toFixed_def)
  with round_thousandths [OF x0 err] show ?thesis
    unfolding Let_def d_def [symmetric] by blast
qed

theorem responseTime_is_elapsed_ms_witness:
  "5000000000 \<le> hr_now sample_probe \<and> hr_now sample_probe - 5000000000 < 9 * 10 ^ 15
   \<and> (hr_now sample_probe - 5000000000) mod 1000 < 500
   \<and> responseTime (make_log sample_request (response fresh_world) (hrtime 5000000000) sample_probe)
       = fixed_digits 3 42000
   \<and> fixed_digits 3 42000 = js ''42.000''"
proof -
  have a: "5000000000 \<le> hr_now sample_probe" "hr_now sample_probe - 5000000000 < 9 * 10 ^ 15"
    by (simp_all add: sample_probe_def)
  have d: "hr_now sample_probe - 5000000000 = 42000123"
    by (simp add: sample_probe_def)
  from responseTime_is_elapsed_ms [OF a, of sample_request "response fresh_world"]
  have "responseTime (make_log sample_request (response fresh_world) (hrtime 5000000000) sample_probe)
       = fixed_digits 3 42000"
    by (simp add: d Let_def)
  moreover have "fixed_digits 3 42000 = js ''42.000''"
    by (simp add: fixed_digits_def digits.simps Let_def js_def)
  ultimately show ?thesis using a d by simp
qed


end
